theory Spec2Isabelle
  imports Main "HOL-Library.Word"
begin

section \<open>The \<open>float\<close> type: IEEE 754 binary32\<close>

text \<open>
  The programs compute on C++ \<open>float\<close>. It is modelled bit for bit as an IEEE 754
  binary32 value: one sign bit, eight bits of biased exponent and 23 bits of fraction.
  Arithmetic is evaluated in binary32 with the default rounding mode, round to nearest,
  ties to even (\<open>FLT_EVAL_METHOD == 0\<close>, \<open>std::numeric_limits<float>::is_iec559\<close>);
  every operation rounds once, none is contracted with another, and the conversion of an
  \<open>int\<close> rounds to nearest as well.
\<close>

datatype float32 = Float32 (sign_bit: bool) (biased_exp: "8 word") (fraction: "23 word")

definition isnan :: "float32 \<Rightarrow> bool" where
  "isnan f \<longleftrightarrow> biased_exp f = 255 \<and> fraction f \<noteq> 0"

definition isinf :: "float32 \<Rightarrow> bool" where
  "isinf f \<longleftrightarrow> biased_exp f = 255 \<and> fraction f = 0"

definition isfinite :: "float32 \<Rightarrow> bool" where
  "isfinite f \<longleftrightarrow> biased_exp f \<noteq> 255"

text \<open>
  The absolute value of a finite \<open>f\<close>, counted in units of \<open>2^-149\<close> (the smallest
  subnormal), is a natural number: the subnormals are \<open>fraction\<close> units, a normal number
  is \<open>(2^23 + fraction) * 2^(biased_exp - 1)\<close> units. For an infinity the same formula
  gives \<open>2^277\<close>, above every finite magnitude, so that \<open>units\<close> orders all values
  that are not NaN.
\<close>

definition magnitude :: "float32 \<Rightarrow> nat" where
  "magnitude f =
     (if biased_exp f = 0 then unat (fraction f)
      else (2 ^ 23 + unat (fraction f)) * 2 ^ (unat (biased_exp f) - 1))"

definition units :: "float32 \<Rightarrow> int" where
  "units f = (if sign_bit f then - int (magnitude f) else int (magnitude f))"

text \<open>The comparisons \<open><\<close>, \<open><=\<close> and \<open>==\<close> of C++: false as soon as one side is NaN;
  \<open>-0\<close> and \<open>+0\<close> are equal.\<close>

definition float_less :: "float32 \<Rightarrow> float32 \<Rightarrow> bool" where
  "float_less a b \<longleftrightarrow> \<not> isnan a \<and> \<not> isnan b \<and> units a < units b"

definition float_le :: "float32 \<Rightarrow> float32 \<Rightarrow> bool" where
  "float_le a b \<longleftrightarrow> \<not> isnan a \<and> \<not> isnan b \<and> units a \<le> units b"

definition float_eq :: "float32 \<Rightarrow> float32 \<Rightarrow> bool" where
  "float_eq a b \<longleftrightarrow> \<not> isnan a \<and> \<not> isnan b \<and> units a = units b"

text \<open>Unary minus flips the sign bit; \<open>std::fabs\<close> clears it. \<open>std::abs\<close> on a
  \<open>float\<close> resolves to the \<open>float\<close> overload that \<open><cmath>\<close> declares, the same
  function.\<close>

definition float_neg :: "float32 \<Rightarrow> float32" where
  "float_neg f = Float32 (\<not> sign_bit f) (biased_exp f) (fraction f)"

definition std_fabs :: "float32 \<Rightarrow> float32" where
  "std_fabs f = Float32 False (biased_exp f) (fraction f)"

definition std_abs :: "float32 \<Rightarrow> float32" where
  "std_abs f = Float32 False (biased_exp f) (fraction f)"

text \<open>Constants: \<open>std::numeric_limits<float>::max()\<close>, the literal \<open>0.5f\<close>, the
  zeros, the infinities and the quiet NaN that an invalid operation returns.\<close>

definition FLT_MAX :: float32 where
  "FLT_MAX = Float32 False 254 0x7FFFFF"

definition half :: float32 where
  "half = Float32 False 126 0"

definition pos_zero :: float32 where
  "pos_zero = Float32 False 0 0"

definition neg_zero :: float32 where
  "neg_zero = Float32 True 0 0"

definition infinity :: "bool \<Rightarrow> float32" where
  "infinity s = Float32 s 255 0"

definition quiet_NaN :: float32 where
  "quiet_NaN = Float32 False 255 0x400000"

subsection \<open>Rounding and addition\<close>

fun bit_length :: "nat \<Rightarrow> nat" where
  "bit_length n = (if n = 0 then 0 else Suc (bit_length (n div 2)))"

declare bit_length.simps [simp del]

text \<open>
  \<open>round_ratio s num den\<close> is the binary32 value of sign \<open>s\<close> nearest to the
  fraction \<open>num / den\<close> of units of \<open>2^-149\<close>, for \<open>den > 0\<close>: the significand
  keeps the 24 leading bits of the quotient, the remainder decides the rounding (up when
  above one half of the last place, to the even significand at one half), a carry out of
  the significand moves to the next exponent, and an exponent beyond 254 is an infinity.
  \<open>round_to_float32 s n\<close> rounds a whole number \<open>n\<close> of units.
\<close>

definition round_ratio :: "bool \<Rightarrow> nat \<Rightarrow> nat \<Rightarrow> float32" where
  "round_ratio s num den =
     (let sh = bit_length (num div den) - 24;
          d = den * 2 ^ sh;
          q = num div d;
          r = num mod d;
          q' = (if d < 2 * r \<or> (2 * r = d \<and> odd q) then q + 1 else q);
          m = (if q' = 2 ^ 24 then 2 ^ 23 else q');
          e = (if q' = 2 ^ 24 then sh + 1 else sh)
      in if m < 2 ^ 23 then Float32 s 0 (of_nat m)
         else if 254 \<le> e then infinity s
         else Float32 s (of_nat (e + 1)) (of_nat (m - 2 ^ 23)))"

text \<open>The magnitude that \<open>round_ratio\<close> rounds to, in units, before the exponent
  range is taken into account.\<close>

definition rounded :: "nat \<Rightarrow> nat \<Rightarrow> nat" where
  "rounded num den =
     (let sh = bit_length (num div den) - 24;
          d = den * 2 ^ sh;
          q = num div d;
          r = num mod d
      in (if d < 2 * r \<or> (2 * r = d \<and> odd q) then q + 1 else q) * 2 ^ sh)"

definition round_to_float32 :: "bool \<Rightarrow> nat \<Rightarrow> float32" where
  "round_to_float32 s n = round_ratio s n 1"

text \<open>The operator \<open>+\<close> on \<open>float\<close>: NaN operands and \<open>inf + -inf\<close> give NaN, an
  infinity absorbs a finite operand, an exact sum of zero is \<open>+0\<close> unless both operands
  are negative, and every other sum is the exact sum rounded. Which NaN an operation
  returns (the payload that hardware propagates from a NaN operand) is not modelled:
  every NaN result is the quiet NaN \<open>0x7FC00000\<close>, and no comparison tells NaNs apart.\<close>

definition float_add :: "float32 \<Rightarrow> float32 \<Rightarrow> float32" where
  "float_add a b =
     (if isnan a \<or> isnan b then quiet_NaN
      else if isinf a then (if isinf b \<and> sign_bit a \<noteq> sign_bit b then quiet_NaN else a)
      else if isinf b then b
      else let s = units a + units b
           in if s = 0 then (if sign_bit a \<and> sign_bit b then neg_zero else pos_zero)
              else round_to_float32 (s < 0) (nat \<bar>s\<bar>))"

text \<open>The operators \<open>-\<close>, \<open>*\<close> and \<open>/\<close> on \<open>float\<close>, and the conversion of
  an \<open>int\<close> to \<open>float\<close>. A product or quotient has the exclusive or of the signs;
  \<open>inf * 0\<close>, \<open>inf / inf\<close> and \<open>0 / 0\<close> are NaN, a finite non-zero value
  divided by zero is an infinity.\<close>

definition float_sub :: "float32 \<Rightarrow> float32 \<Rightarrow> float32" where
  "float_sub a b = float_add a (float_neg b)"

definition float_mul :: "float32 \<Rightarrow> float32 \<Rightarrow> float32" where
  "float_mul a b =
     (if isnan a \<or> isnan b then quiet_NaN
      else if isinf a \<or> isinf b then
        (if magnitude a = 0 \<or> magnitude b = 0 then quiet_NaN
         else infinity (sign_bit a \<noteq> sign_bit b))
      else round_ratio (sign_bit a \<noteq> sign_bit b) (magnitude a * magnitude b) (2 ^ 149))"

definition float_div :: "float32 \<Rightarrow> float32 \<Rightarrow> float32" where
  "float_div a b =
     (if isnan a \<or> isnan b then quiet_NaN
      else if isinf a then (if isinf b then quiet_NaN else infinity (sign_bit a \<noteq> sign_bit b))
      else if isinf b then Float32 (sign_bit a \<noteq> sign_bit b) 0 0
      else if magnitude b = 0 then
        (if magnitude a = 0 then quiet_NaN else infinity (sign_bit a \<noteq> sign_bit b))
      else round_ratio (sign_bit a \<noteq> sign_bit b) (magnitude a * 2 ^ 149) (magnitude b))"

definition float_of_int :: "int \<Rightarrow> float32" where
  "float_of_int i = round_to_float32 (i < 0) (nat \<bar>i\<bar> * 2 ^ 149)"

section \<open>Points, pointers and the store\<close>

text \<open>
  \<open>struct Point { float x; float y; }\<close> (\<open>Pos2d\<close> in two of the four programs). The
  collection is a \<open>std::vector\<close> of pointers to points allocated one by one, so a pointer
  is modelled as an address into a store that only grows: \<open>new Point(...)\<close> and
  \<open>std::make_shared<Point>(...)\<close> append a cell. Reading through the null pointer, through
  an address that was never allocated, or past the end of a vector is undefined behaviour
  in C++; the model makes it a \<open>fault\<close> value.
\<close>

datatype Point = Point (point_x: float32) (point_y: float32)

datatype ptr = nullptr | Addr nat

type_synonym store = "Point list"

datatype fault = NullDereference | InvalidPointer | OutOfRange

fun deref :: "store \<Rightarrow> ptr \<Rightarrow> fault + Point" where
  "deref h nullptr = Inl NullDereference"
| "deref h (Addr a) = (if a < length h then Inr (h ! a) else Inl InvalidPointer)"

section \<open>Distance metric and proximity classifier\<close>

text \<open>\<open>ManhattanToOrigin\<close> of the two programs that call \<open>std::fabs\<close>, and of the two
  that call \<open>std::abs\<close>.\<close>

definition ManhattanToOrigin :: "store \<Rightarrow> ptr \<Rightarrow> fault + float32" where
  "ManhattanToOrigin h point =
     (case deref h point of
        Inl e \<Rightarrow> Inl e
      | Inr p \<Rightarrow> Inr (float_add (std_fabs (point_x p)) (std_fabs (point_y p))))"

definition ManhattanToOrigin_abs :: "store \<Rightarrow> ptr \<Rightarrow> fault + float32" where
  "ManhattanToOrigin_abs h point =
     (case deref h point of
        Inl e \<Rightarrow> Inl e
      | Inr p \<Rightarrow> Inr (float_add (std_abs (point_x p)) (std_abs (point_y p))))"

text \<open>\<open>PointIsNearOrigin\<close> (\<open>Pos2dIsNearOrigin\<close>; a lambda with the same body in the
  \<open>shared_ptr\<close> programs): the distance is compared with the literal \<open>0.5f\<close>.\<close>

definition PointIsNearOrigin :: "store \<Rightarrow> ptr \<Rightarrow> fault + bool" where
  "PointIsNearOrigin h point =
     (case ManhattanToOrigin h point of
        Inl e \<Rightarrow> Inl e
      | Inr d \<Rightarrow> Inr (float_less d half))"

text \<open>The same test with the literal \<open>0.5f\<close> replaced by a threshold \<open>t\<close>, for the
  statements that range over thresholds.\<close>

definition is_near_origin :: "float32 \<Rightarrow> store \<Rightarrow> ptr \<Rightarrow> fault + bool" where
  "is_near_origin t h point =
     (case ManhattanToOrigin h point of
        Inl e \<Rightarrow> Inl e
      | Inr d \<Rightarrow> Inr (float_less d t))"

text \<open>
  The counting loop of \<open>main\<close>. In the \<open>shared_ptr\<close> programs it is a range-based
  \<open>for\<close>, in the raw-pointer programs an index loop. The counter \<open>nearOrigin\<close> is an
  \<open>int\<close> that starts at 0 and is incremented at most once per element; it is a natural
  number here, valid for vectors of fewer than \<open>2^31\<close> elements.
\<close>

fun count_scan :: "store \<Rightarrow> ptr list \<Rightarrow> nat \<Rightarrow> fault + nat" where
  "count_scan h [] nearOrigin = Inr nearOrigin"
| "count_scan h (point # rest) nearOrigin =
     (case PointIsNearOrigin h point of
        Inl e \<Rightarrow> Inl e
      | Inr near \<Rightarrow> count_scan h rest (if near then nearOrigin + 1 else nearOrigin))"

function count_index_loop :: "store \<Rightarrow> ptr list \<Rightarrow> nat \<Rightarrow> nat \<Rightarrow> fault + nat" where
  "count_index_loop h points i nearOrigin =
     (if i < length points then
        (case PointIsNearOrigin h (points ! i) of
           Inl e \<Rightarrow> Inl e
         | Inr near \<Rightarrow>
             count_index_loop h points (i + 1) (if near then nearOrigin + 1 else nearOrigin))
      else Inr nearOrigin)"
  by pat_completeness auto
termination
  by (relation "measure (\<lambda>(h, points, i, n). length points - i)") auto

declare count_index_loop.simps [simp del]

fun count_near_origin :: "float32 \<Rightarrow> store \<Rightarrow> ptr list \<Rightarrow> nat \<Rightarrow> fault + nat" where
  "count_near_origin t h [] nearOrigin = Inr nearOrigin"
| "count_near_origin t h (point # rest) nearOrigin =
     (case is_near_origin t h point of
        Inl e \<Rightarrow> Inl e
      | Inr near \<Rightarrow> count_near_origin t h rest (if near then nearOrigin + 1 else nearOrigin))"

section \<open>Nearest-point search\<close>

text \<open>
  The \<open>shared_ptr\<close> programs: a range-based \<open>for\<close> over the vector, carrying
  \<open>min_point\<close> (initially null) and \<open>min_distance\<close> (initially \<open>FLT_MAX\<close>).
\<close>

fun nearest_scan :: "store \<Rightarrow> ptr list \<Rightarrow> ptr \<times> float32 \<Rightarrow> fault + ptr \<times> float32" where
  "nearest_scan h [] (min_point, min_distance) = Inr (min_point, min_distance)"
| "nearest_scan h (point # rest) (min_point, min_distance) =
     (case ManhattanToOrigin h point of
        Inl e \<Rightarrow> Inl e
      | Inr d \<Rightarrow>
          if float_less d min_distance then nearest_scan h rest (point, d)
          else nearest_scan h rest (min_point, min_distance))"

definition NearestToOrigin_shared :: "store \<Rightarrow> ptr list \<Rightarrow> fault + ptr \<times> float32" where
  "NearestToOrigin_shared h points = nearest_scan h points (nullptr, FLT_MAX)"

text \<open>
  The raw-pointer programs: an index loop carrying \<open>min_index\<close> (initially 0) and
  \<open>min_distance\<close>, then the read \<open>points[min_index]\<close>, which is past the end when the
  vector is empty. The counter \<open>i\<close> is an \<open>unsigned int\<close>; the model is for vectors of
  fewer than \<open>2^32\<close> elements, where it does not wrap.
\<close>

function nearest_index_loop ::
  "store \<Rightarrow> ptr list \<Rightarrow> nat \<Rightarrow> nat \<times> float32 \<Rightarrow> fault + nat \<times> float32" where
  "nearest_index_loop h points i (min_index, min_distance) =
     (if i < length points then
        (case ManhattanToOrigin h (points ! i) of
           Inl e \<Rightarrow> Inl e
         | Inr d \<Rightarrow>
             if float_less d min_distance then nearest_index_loop h points (i + 1) (i, d)
             else nearest_index_loop h points (i + 1) (min_index, min_distance))
      else Inr (min_index, min_distance))"
  by pat_completeness auto
termination
  by (relation "measure (\<lambda>(h, points, i, st). length points - i)") auto

declare nearest_index_loop.simps [simp del]

definition NearestToOrigin_raw :: "store \<Rightarrow> ptr list \<Rightarrow> fault + ptr \<times> float32" where
  "NearestToOrigin_raw h points =
     (case nearest_index_loop h points 0 (0, FLT_MAX) of
        Inl e \<Rightarrow> Inl e
      | Inr (min_index, min_distance) \<Rightarrow>
          if min_index < length points then Inr (points ! min_index, min_distance)
          else Inl OutOfRange)"

section \<open>Point generation and the programs\<close>

text \<open>
  \<open>RandomPoint\<close> allocates one point from two draws of \<open>RandomNumber\<close> and returns
  its address; the draws are an input of the model. \<open>main\<close> creates 100 points, counts
  those near the origin, searches the nearest one and prints the count, the size, the
  nearest point and its distance: that report is the result of the model. \<open>draws i\<close>
  is the coordinate pair of the \<open>i\<close>-th point created. The raw-pointer programs
  delete the points after the report is printed, which the model leaves out.
\<close>

definition RandomPoint :: "store \<Rightarrow> float32 \<times> float32 \<Rightarrow> store \<times> ptr" where
  "RandomPoint h c = (h @ [Point (fst c) (snd c)], Addr (length h))"

fun generate :: "(float32 \<times> float32) list \<Rightarrow> store \<times> ptr list \<Rightarrow> store \<times> ptr list" where
  "generate [] (h, points) = (h, points)"
| "generate (c # cs) (h, points) =
     (case RandomPoint h c of (h', new_point) \<Rightarrow> generate cs (h', points @ [new_point]))"

type_synonym report = "nat \<times> nat \<times> Point \<times> float32"

definition report_raw :: "store \<Rightarrow> ptr list \<Rightarrow> fault + report" where
  "report_raw h points =
     (case count_index_loop h points 0 0 of
        Inl e \<Rightarrow> Inl e
      | Inr nearOrigin \<Rightarrow>
          (case NearestToOrigin_raw h points of
             Inl e \<Rightarrow> Inl e
           | Inr (nearest_point, min_distance) \<Rightarrow>
               (case deref h nearest_point of
                  Inl e \<Rightarrow> Inl e
                | Inr p \<Rightarrow> Inr (nearOrigin, length points, p, min_distance))))"

definition report_shared :: "store \<Rightarrow> ptr list \<Rightarrow> fault + report" where
  "report_shared h points =
     (case count_scan h points 0 of
        Inl e \<Rightarrow> Inl e
      | Inr nearOrigin \<Rightarrow>
          (case NearestToOrigin_shared h points of
             Inl e \<Rightarrow> Inl e
           | Inr (nearest_point, min_distance) \<Rightarrow>
               (case deref h nearest_point of
                  Inl e \<Rightarrow> Inl e
                | Inr p \<Rightarrow> Inr (nearOrigin, length points, p, min_distance))))"

definition main_raw :: "(nat \<Rightarrow> float32 \<times> float32) \<Rightarrow> fault + report" where
  "main_raw draws =
     (case generate (map draws [0..<100]) ([], []) of (h, points) \<Rightarrow> report_raw h points)"

definition main_shared :: "(nat \<Rightarrow> float32 \<times> float32) \<Rightarrow> fault + report" where
  "main_shared draws =
     (case generate (map draws [0..<100]) ([], []) of (h, points) \<Rightarrow> report_shared h points)"

section \<open>Literals\<close>

text \<open>The \<open>float\<close> literals \<open>0.1f\<close>, \<open>0.2f\<close>, \<open>0.3f\<close>, \<open>0.9f\<close>,
  \<open>1.8f\<close>, \<open>0.25f\<close>, \<open>1.0f\<close> and \<open>2.0f\<close> by their bits (\<open>0x3DCCCCCD\<close>,
  \<open>0x3E4CCCCD\<close>, \<open>0x3E99999A\<close>, \<open>0x3F666666\<close>, \<open>0x3FE66666\<close>,
  \<open>0x3E800000\<close>, \<open>0x3F800000\<close>, \<open>0x40000000\<close>), and what it means for a
  binary32 value to be the one nearest to a fraction \<open>num / den\<close>: the distance is at
  most half a unit in the last place.\<close>

definition f_0_1 :: float32 where "f_0_1 = Float32 False 123 0x4CCCCD"
definition f_0_2 :: float32 where "f_0_2 = Float32 False 124 0x4CCCCD"
definition f_0_3 :: float32 where "f_0_3 = Float32 False 125 0x19999A"
definition f_0_9 :: float32 where "f_0_9 = Float32 False 126 0x666666"
definition f_1_8 :: float32 where "f_1_8 = Float32 False 127 0x666666"
definition f_0_25 :: float32 where "f_0_25 = Float32 False 125 0"
definition f_1_0 :: float32 where "f_1_0 = Float32 False 127 0"
definition f_2_0 :: float32 where "f_2_0 = Float32 False 128 0"

definition nearest_float32 :: "nat \<Rightarrow> nat \<Rightarrow> float32 \<Rightarrow> bool" where
  "nearest_float32 num den f \<longleftrightarrow>
     isfinite f \<and> \<not> sign_bit f \<and>
     2 * \<bar>int (magnitude f) * int den - int num * 2 ^ 149\<bar>
       \<le> int den * 2 ^ (unat (biased_exp f) - 1)"

text \<open>The values that \<open>RandomNumber\<close> is documented to return, \<open>[-1, +1]\<close>:
  \<open>1.0f\<close> is \<open>2^149\<close> units.\<close>

definition in_unit_range :: "float32 \<Rightarrow> bool" where
  "in_unit_range f \<longleftrightarrow> \<not> isnan f \<and> magnitude f \<le> 2 ^ 149"

section \<open>Random number source\<close>

text \<open>
  \<open>RandomNumber\<close>. Before C++11 it computes \<open>2.f*(rand()/(float)RAND_MAX)-1.f\<close>
  from the value \<open>r\<close> that \<open>rand()\<close> returns, which lies between 0 and the
  implementation's \<open>RAND_MAX\<close>; both are inputs of the model. From C++11 on it
  constructs \<open>std::uniform_real_distribution<float> uniform(-1.f, 1.f)\<close> and returns
  \<open>uniform(mersenne)\<close>. The library is an input of the model: \<open>uniform a b g\<close> is
  the value that a distribution constructed with the bounds \<open>a\<close> and \<open>b\<close> draws from an
  engine in state \<open>g\<close>; the bounds that the code passes, \<open>-1.f\<close> and \<open>1.f\<close>, are
  in the definition. Seeding on the first call changes the generator's state and with it
  the values drawn, not the arithmetic on them.
\<close>

definition RandomNumber_rand :: "int \<Rightarrow> int \<Rightarrow> float32" where
  "RandomNumber_rand RAND_MAX r =
     float_sub (float_mul f_2_0 (float_div (float_of_int r) (float_of_int RAND_MAX))) f_1_0"


section \<open>Order of the comparison\<close>

lemma float_less_irrefl: "\<not> float_less a a"
  by (simp add: float_less_def)

lemma float_less_trans: "float_less a b \<Longrightarrow> float_less b c \<Longrightarrow> float_less a c"
  by (auto simp: float_less_def)

lemma float_trichotomy:
  "\<not> isnan a \<Longrightarrow> \<not> isnan b \<Longrightarrow> float_less a b \<or> float_eq a b \<or> float_less b a"
  by (auto simp: float_less_def float_eq_def)

section \<open>Bit length\<close>

lemma unat_fraction_of_nat: "m < 2 ^ 23 \<Longrightarrow> unat (of_nat m :: 23 word) = m"
  by (simp add: unat_of_nat)

lemma unat_exp_of_nat: "e < 256 \<Longrightarrow> unat (of_nat e :: 8 word) = e"
  by (simp add: unat_of_nat)

lemma bit_length_less: "n < 2 ^ bit_length n"
proof (induction n rule: bit_length.induct)
  case (1 n)
  show ?case
  proof (cases "n = 0")
    case True
    then show ?thesis by (simp add: bit_length.simps)
  next
    case False
    with 1 have "n div 2 < 2 ^ bit_length (n div 2)" by simp
    then have "n < 2 * 2 ^ bit_length (n div 2)" by linarith
    then show ?thesis using False by (simp add: bit_length.simps [of n])
  qed
qed

lemma bit_length_ge: "n \<noteq> 0 \<Longrightarrow> 2 ^ (bit_length n - 1) \<le> n"
proof (induction n rule: bit_length.induct)
  case (1 n)
  show ?case
  proof (cases "n div 2 = 0")
    case True
    then show ?thesis using "1.prems" by (simp add: bit_length.simps [of n] bit_length.simps [of 0])
  next
    case False
    with 1 have "2 ^ (bit_length (n div 2) - 1) \<le> n div 2" by simp
    moreover have "bit_length (n div 2) \<noteq> 0" using False by (simp add: bit_length.simps [of "n div 2"])
    ultimately have "2 ^ bit_length (n div 2) \<le> 2 * (n div 2)"
      by (cases "bit_length (n div 2)") simp_all
    then have "2 ^ bit_length (n div 2) \<le> n" by linarith
    then show ?thesis using "1.prems" by (simp add: bit_length.simps [of n])
  qed
qed

lemma bit_length_le: "n < 2 ^ k \<Longrightarrow> bit_length n \<le> k"
proof (cases "n = 0")
  case True
  then show ?thesis by (simp add: bit_length.simps)
next
  case False
  assume "n < 2 ^ k"
  with bit_length_ge [OF False] have "(2::nat) ^ (bit_length n - 1) < 2 ^ k" by linarith
  then have "bit_length n - 1 < k" by simp
  then show ?thesis by linarith
qed


lemma bit_length_power: "bit_length (2 ^ k) = Suc k"
proof -
  have "bit_length (2 ^ k) \<le> Suc k" by (rule bit_length_le) simp
  moreover have "\<not> bit_length (2 ^ k) \<le> k"
  proof
    assume "bit_length (2 ^ k) \<le> k"
    then have "(2::nat) ^ bit_length (2 ^ k) \<le> 2 ^ k" by (rule power_increasing) simp
    with bit_length_less [of "2 ^ k"] show False by simp
  qed
  ultimately show ?thesis by simp
qed

section \<open>Rounding\<close>

lemma kept_bits:
  fixes num den :: nat
  assumes "0 < den"
  defines "sh \<equiv> bit_length (num div den) - 24"
  shows "num div (den * 2 ^ sh) = (num div den) div 2 ^ sh"
    and "num div (den * 2 ^ sh) < 2 ^ 24"
    and "0 < sh \<Longrightarrow> 2 ^ 23 \<le> num div (den * 2 ^ sh)"
proof -
  let ?v = "num div den"
  show eq: "num div (den * 2 ^ sh) = ?v div 2 ^ sh" by (simp add: div_mult2_eq)
  have "bit_length ?v \<le> sh + 24" by (simp add: sh_def)
  then have "(2::nat) ^ bit_length ?v \<le> 2 ^ (sh + 24)" by (rule power_increasing) simp
  with bit_length_less [of ?v] have "?v < 2 ^ 24 * 2 ^ sh" by (simp add: power_add mult.commute)
  then show "num div (den * 2 ^ sh) < 2 ^ 24" by (simp add: eq less_mult_imp_div_less)
  assume pos: "0 < sh"
  then have l: "bit_length ?v = sh + 24" by (simp add: sh_def)
  have "?v \<noteq> 0"
  proof
    assume "?v = 0"
    then have "bit_length ?v = 0" by (simp add: bit_length.simps)
    with l show False by simp
  qed
  moreover have "bit_length ?v - 1 = 23 + sh" using l by simp
  ultimately have "2 ^ (23 + sh) \<le> ?v" using bit_length_ge [of ?v] by simp
  then have "2 ^ 23 * 2 ^ sh \<le> ?v" by (simp add: power_add)
  then have "2 ^ 23 \<le> ?v div 2 ^ sh" by (simp add: less_eq_div_iff_mult_less_eq)
  then show "2 ^ 23 \<le> num div (den * 2 ^ sh)" by (simp add: eq)
qed

lemma round_ratio_unfold:
  fixes num den :: nat
  defines "sh \<equiv> bit_length (num div den) - 24"
  defines "q' \<equiv> (if den * 2 ^ sh < 2 * (num mod (den * 2 ^ sh))
                     \<or> (2 * (num mod (den * 2 ^ sh)) = den * 2 ^ sh \<and> odd (num div (den * 2 ^ sh)))
                   then num div (den * 2 ^ sh) + 1 else num div (den * 2 ^ sh))"
  defines "m \<equiv> (if q' = 2 ^ 24 then 2 ^ 23 else q')"
  defines "e \<equiv> (if q' = 2 ^ 24 then sh + 1 else sh)"
  shows "round_ratio s num den =
      (if m < 2 ^ 23 then Float32 s 0 (of_nat m)
       else if 254 \<le> e then infinity s
       else Float32 s (of_nat (e + 1)) (of_nat (m - 2 ^ 23)))"
    and "rounded num den = m * 2 ^ e"
    and "rounded num den = q' * 2 ^ sh"
    and "0 < den \<Longrightarrow> m < 2 ^ 24"
    and "0 < den \<Longrightarrow> m < 2 ^ 23 \<Longrightarrow> e = 0"
proof -
  show "round_ratio s num den =
      (if m < 2 ^ 23 then Float32 s 0 (of_nat m)
       else if 254 \<le> e then infinity s
       else Float32 s (of_nat (e + 1)) (of_nat (m - 2 ^ 23)))"
    unfolding round_ratio_def Let_def sh_def q'_def m_def e_def ..
  show r: "rounded num den = q' * 2 ^ sh"
    unfolding rounded_def Let_def sh_def q'_def ..
  show "rounded num den = m * 2 ^ e"
    by (simp add: r m_def e_def)
  assume den: "0 < den"
  have "num div (den * 2 ^ sh) < 2 ^ 24"
    unfolding sh_def using den by (rule kept_bits(2))
  then have "q' \<le> 2 ^ 24" by (simp add: q'_def)
  then show "m < 2 ^ 24" by (simp add: m_def)
  assume small: "m < 2 ^ 23"
  show "e = 0"
  proof (rule ccontr)
    assume "e \<noteq> 0"
    then have "0 < sh" using small by (auto simp: e_def m_def split: if_splits)
    then have "2 ^ 23 \<le> num div (den * 2 ^ sh)"
      unfolding sh_def using den by (intro kept_bits(3)) simp_all
    then have "2 ^ 23 \<le> q'" by (simp add: q'_def)
    then show False using small by (simp add: m_def split: if_splits)
  qed
qed

lemma sign_round_ratio: "sign_bit (round_ratio s num den) = s"
  by (simp add: round_ratio_def Let_def infinity_def)

lemma exp_field:
  assumes "\<not> 254 \<le> e"
  shows "unat (of_nat (e + 1) :: 8 word) = e + 1"
    and "(of_nat (e + 1) :: 8 word) \<noteq> 0" and "(of_nat (e + 1) :: 8 word) \<noteq> 255"
proof -
  from assms have e1: "e + 1 < 256" "e + 1 \<noteq> 0" "e + 1 \<noteq> 255" by simp_all
  show x: "unat (of_nat (e + 1) :: 8 word) = e + 1"
    using e1(1) by (rule unat_exp_of_nat)
  show "(of_nat (e + 1) :: 8 word) \<noteq> 0" "(of_nat (e + 1) :: 8 word) \<noteq> 255"
    using x e1 by (auto simp: word_unat_eq_iff simp del: of_nat_add of_nat_Suc)
qed

lemma round_ratio_not_nan: "\<not> isnan (round_ratio s num den)"
  using exp_field(3)
  by (simp add: round_ratio_unfold(1) isnan_def infinity_def del: of_nat_add of_nat_Suc)

lemma magnitude_round_ratio:
  assumes "0 < den"
  shows "magnitude (round_ratio s num den) = min (rounded num den) (2 ^ 277)"
proof -
  define sh where "sh = bit_length (num div den) - 24"
  define q' where "q' = (if den * 2 ^ sh < 2 * (num mod (den * 2 ^ sh))
                     \<or> (2 * (num mod (den * 2 ^ sh)) = den * 2 ^ sh \<and> odd (num div (den * 2 ^ sh)))
                   then num div (den * 2 ^ sh) + 1 else num div (den * 2 ^ sh))"
  define m where "m = (if q' = 2 ^ 24 then 2 ^ 23 else q')"
  define e where "e = (if q' = 2 ^ 24 then sh + 1 else sh)"
  note u = round_ratio_unfold [where num = num and den = den, folded sh_def, folded q'_def, folded m_def e_def]
  have rd: "round_ratio s num den =
      (if m < 2 ^ 23 then Float32 s 0 (of_nat m)
       else if 254 \<le> e then infinity s
       else Float32 s (of_nat (e + 1)) (of_nat (m - 2 ^ 23)))" by (rule u(1))
  have val: "rounded num den = m * 2 ^ e" by (rule u(2))
  have m24: "m < 2 ^ 24" using assms by (rule u(4))
  show ?thesis
  proof (cases "m < 2 ^ 23")
    case True
    then have "e = 0" using assms u(5) by simp
    then show ?thesis
      using True by (simp add: rd val magnitude_def unat_fraction_of_nat)
  next
    case m23: False
    show ?thesis
    proof (cases "254 \<le> e")
      case True
      have "(2::nat) ^ 23 * 2 ^ 254 \<le> m * 2 ^ e"
        using m23 True by (intro mult_mono power_increasing) simp_all
      then have "(2::nat) ^ 277 \<le> rounded num den" by (simp add: val)
      then show ?thesis
        using m23 True by (simp add: rd infinity_def magnitude_def)
    next
      case False
      have f: "unat (of_nat (m - 2 ^ 23) :: 23 word) = m - 2 ^ 23"
        using m24 by (intro unat_fraction_of_nat) simp
      have mag: "magnitude (round_ratio s num den) = m * 2 ^ e"
        using m23 False exp_field [OF False] f
        by (simp add: rd magnitude_def del: of_nat_add of_nat_Suc)
      have "m * 2 ^ e < 2 ^ 24 * 2 ^ e" using m24 by simp
      also have "\<dots> \<le> 2 ^ 24 * 2 ^ 253"
        using False by (intro mult_left_mono power_increasing) simp_all
      finally have "m * 2 ^ e < 2 ^ 277" by simp
      then show ?thesis by (simp add: mag val)
    qed
  qed
qed

lemma rounded_le_pow:
  assumes "0 < den" and "num \<le> den * 2 ^ k" and "24 \<le> k"
  shows "rounded num den \<le> 2 ^ k"
proof -
  define v where "v = num div den"
  define sh where "sh = bit_length v - 24"
  define d where "d = den * 2 ^ sh"
  define q' where "q' = (if d < 2 * (num mod d) \<or> (2 * (num mod d) = d \<and> odd (num div d))
                         then num div d + 1 else num div d)"
  have val: "rounded num den = q' * 2 ^ sh"
    unfolding rounded_def Let_def q'_def d_def sh_def v_def ..
  have q24: "num div d < 2 ^ 24"
    unfolding d_def sh_def v_def using assms(1) by (rule kept_bits(2))
  have vk: "v \<le> 2 ^ k"
  proof -
    have "num div den \<le> (den * 2 ^ k) div den" using assms(2) by (rule div_le_mono)
    then show ?thesis using assms(1) by (simp add: v_def)
  qed
  show ?thesis
  proof (cases "v < 2 ^ k")
    case True
    then have "bit_length v \<le> k" by (rule bit_length_le)
    then have "sh + 24 \<le> k" using assms(3) by (simp add: sh_def)
    then have p: "(2::nat) ^ (24 + sh) \<le> 2 ^ k" by (intro power_increasing) simp_all
    have "q' \<le> 2 ^ 24" using q24 by (simp add: q'_def)
    then have "q' * 2 ^ sh \<le> 2 ^ 24 * 2 ^ sh" by (rule mult_le_mono1)
    also have "\<dots> = 2 ^ (24 + sh)" by (simp only: power_add)
    also note p
    finally show ?thesis by (simp only: val)
  next
    case False
    with vk have v: "v = 2 ^ k" by simp
    then have sh: "sh = k - 23" by (simp add: sh_def bit_length_power)
    have "den * 2 ^ k \<le> num"
      using v div_times_less_eq_dividend [of num den] by (simp add: v_def mult.commute)
    with assms(2) have num: "num = den * 2 ^ k" by simp
    have k: "k = 23 + sh" using sh assms(3) by simp
    have "num = d * 2 ^ 23" by (simp add: num d_def) (simp add: k power_add)
    moreover have "0 < d" using assms(1) by (simp add: d_def)
    ultimately have "num div d = 2 ^ 23" "num mod d = 0" by simp_all
    then have "q' = 2 ^ 23" using \<open>0 < d\<close> by (simp add: q'_def)
    then show ?thesis by (simp add: val) (simp add: k power_add)
  qed
qed

lemma rounded_int_unfold:
  fixes n :: nat
  defines "sh \<equiv> bit_length n - 24"
  shows "rounded n 1 =
     (if 2 ^ sh < 2 * (n mod 2 ^ sh) \<or> (2 * (n mod 2 ^ sh) = 2 ^ sh \<and> odd (n div 2 ^ sh))
      then n div 2 ^ sh + 1 else n div 2 ^ sh) * 2 ^ sh"
  unfolding rounded_def Let_def sh_def by simp






lemma rounded_error:
  "2 * rounded n 1 \<le> 2 * n + 2 ^ (bit_length n - 24)
   \<and> 2 * n \<le> 2 * rounded n 1 + 2 ^ (bit_length n - 24)"
proof -
  define sh where "sh = bit_length n - 24"
  define q where "q = n div 2 ^ sh"
  define r where "r = n mod 2 ^ sh"
  have n: "n = q * 2 ^ sh + r" unfolding q_def r_def by (metis div_mult_mod_eq)
  have r: "r < 2 ^ sh" by (simp add: r_def)
  have val: "rounded n 1 = (if 2 ^ sh < 2 * r \<or> (2 * r = 2 ^ sh \<and> odd q) then q + 1 else q) * 2 ^ sh"
    unfolding sh_def q_def r_def by (rule rounded_int_unfold)
  have "2 * rounded n 1 \<le> 2 * n + 2 ^ sh \<and> 2 * n \<le> 2 * rounded n 1 + 2 ^ sh"
  proof (cases "2 ^ sh < 2 * r \<or> (2 * r = 2 ^ sh \<and> odd q)")
    case True
    then have "rounded n 1 = q * 2 ^ sh + 2 ^ sh" unfolding val by simp
    moreover have "2 ^ sh \<le> 2 * r" using True by auto
    ultimately show ?thesis using r n by linarith
  next
    case False
    then have "rounded n 1 = q * 2 ^ sh" unfolding val by simp
    moreover have "2 * r \<le> 2 ^ sh" using False by auto
    ultimately show ?thesis using r n by linarith
  qed
  then show ?thesis by (simp only: sh_def)
qed


lemma finite_magnitude:
  assumes "isfinite f"
  shows "magnitude f < 2 ^ 277"
proof -
  have "unat (biased_exp f) < 2 ^ 8" using unsigned_less [of "biased_exp f"] by simp
  moreover have "unat (biased_exp f) \<noteq> 255"
    using assms by (simp add: isfinite_def word_unat_eq_iff)
  ultimately have e: "unat (biased_exp f) - 1 \<le> 253" by simp
  have fr: "unat (fraction f) < 2 ^ 23" using unsigned_less [of "fraction f"] by simp
  have "(2 ^ 23 + unat (fraction f)) * 2 ^ (unat (biased_exp f) - 1)
        < 2 ^ 24 * 2 ^ (unat (biased_exp f) - 1)"
    using fr by simp
  also have "\<dots> \<le> 2 ^ 24 * 2 ^ 253"
    using e by (intro mult_left_mono power_increasing) simp_all
  finally have "(2 ^ 23 + unat (fraction f)) * 2 ^ (unat (biased_exp f) - 1) < 2 ^ 277" by simp
  moreover have "unat (fraction f) < 2 ^ 277" using fr by simp
  ultimately show ?thesis by (simp add: magnitude_def)
qed

lemma finite_not_special: "isfinite f \<Longrightarrow> \<not> isnan f \<and> \<not> isinf f"
  by (simp add: isfinite_def isnan_def isinf_def)


lemma round_to_float32_facts:
  "\<not> isnan (round_to_float32 s n)"
  "sign_bit (round_to_float32 s n) = s"
  "magnitude (round_to_float32 s n) = min (rounded n 1) (2 ^ 277)"
  by (simp_all add: round_to_float32_def round_ratio_not_nan sign_round_ratio magnitude_round_ratio)

lemma round_to_float32_not_nan: "\<not> isnan (round_to_float32 s n)"
  by (rule round_to_float32_facts(1))

lemma round_to_float32_bound:
  assumes "n < 2 ^ k" and "24 \<le> k" and "k \<le> 277"
  shows "\<not> isnan (round_to_float32 s n) \<and> magnitude (round_to_float32 s n) \<le> 2 ^ k"
proof -
  have "n \<le> 1 * 2 ^ k" using assms(1) by simp
  then have "rounded n 1 \<le> 2 ^ k" using assms(2) by (intro rounded_le_pow) simp_all
  then show ?thesis by (simp add: round_to_float32_facts min.coboundedI1)
qed

lemma round_to_float32_error:
  assumes "isfinite (round_to_float32 s n)"
  shows "2 * \<bar>int (magnitude (round_to_float32 s n)) - int n\<bar> \<le> 2 ^ (bit_length n - 24)"
proof -
  have "magnitude (round_to_float32 s n) < 2 ^ 277"
    using assms by (rule finite_magnitude)
  then have m: "magnitude (round_to_float32 s n) = rounded n 1"
    by (simp add: round_to_float32_facts(3))
  have "2 * int (rounded n 1) \<le> 2 * int n + 2 ^ (bit_length n - 24)"
    "2 * int n \<le> 2 * int (rounded n 1) + 2 ^ (bit_length n - 24)"
    using rounded_error [of n] by (metis (mono_tags) of_nat_add of_nat_le_iff of_nat_mult of_nat_numeral of_nat_power)+
  then show ?thesis unfolding m by (cases "int n \<le> int (rounded n 1)") simp_all
qed

lemma round_zero: "round_to_float32 s 0 = Float32 s 0 0"
  by (simp add: round_to_float32_def round_ratio_def bit_length.simps)

lemma sign_round: "sign_bit (round_to_float32 s n) = s"
  by (rule round_to_float32_facts(2))

section \<open>Absolute value and sum\<close>

lemma std_abs_eq_fabs: "std_abs f = std_fabs f"
  by (simp add: std_abs_def std_fabs_def)

lemma ManhattanToOrigin_abs_eq: "ManhattanToOrigin_abs h p = ManhattanToOrigin h p"
  by (simp add: ManhattanToOrigin_abs_def ManhattanToOrigin_def std_abs_eq_fabs split: sum.splits)

lemma std_fabs_neg: "std_fabs (float_neg f) = std_fabs f"
  by (simp add: std_fabs_def float_neg_def)

lemma magnitude_fabs: "magnitude (std_fabs f) = magnitude f"
  by (simp add: magnitude_def std_fabs_def)

lemma units_fabs: "units (std_fabs f) = \<bar>units f\<bar>"
  by (simp add: units_def magnitude_fabs) (simp add: std_fabs_def)

lemma fabs_class:
  "isnan (std_fabs f) = isnan f" "isinf (std_fabs f) = isinf f"
  "isfinite (std_fabs f) = isfinite f" "sign_bit (std_fabs f) = False"
  by (simp_all add: isnan_def isinf_def isfinite_def std_fabs_def)

lemma float_add_finite_nonneg:
  assumes "isfinite a" "isfinite b" "\<not> sign_bit a" "\<not> sign_bit b"
  shows "float_add a b = round_to_float32 False (magnitude a + magnitude b)"
proof -
  have u: "units a = int (magnitude a)" "units b = int (magnitude b)"
    using assms by (simp_all add: units_def)
  show ?thesis
  proof (cases "magnitude a + magnitude b = 0")
    case True
    then show ?thesis
      using assms finite_not_special [of a] finite_not_special [of b]
      by (simp add: float_add_def u round_zero pos_zero_def)
  next
    case False
    then have "int (magnitude a) + int (magnitude b) \<noteq> 0" by linarith
    moreover have "nat \<bar>int (magnitude a) + int (magnitude b)\<bar> = magnitude a + magnitude b"
      by linarith
    moreover have "\<not> int (magnitude a) + int (magnitude b) < 0" by linarith
    ultimately show ?thesis
      using assms finite_not_special [of a] finite_not_special [of b]
      by (simp add: float_add_def u Let_def)
  qed
qed

lemma sign_float_add_nonneg:
  assumes "\<not> sign_bit a" "\<not> sign_bit b"
  shows "\<not> sign_bit (float_add a b)"
proof -
  have "0 \<le> units a + units b" using assms by (simp add: units_def)
  then show ?thesis
    using assms
    by (auto simp: float_add_def Let_def quiet_NaN_def pos_zero_def sign_round)
qed

lemma ManhattanToOrigin_sign:
  "ManhattanToOrigin h p = Inr d \<Longrightarrow> \<not> sign_bit d"
  by (auto simp: ManhattanToOrigin_def fabs_class sign_float_add_nonneg split: sum.splits)

lemma ManhattanToOrigin_nonneg:
  "ManhattanToOrigin h p = Inr d \<Longrightarrow> 0 \<le> units d"
  by (drule ManhattanToOrigin_sign) (simp add: units_def)

lemma units_half: "units half = 2 ^ 148"
  by (simp add: units_def magnitude_def half_def)

lemma not_nan_half: "\<not> isnan half"
  by (simp add: isnan_def half_def)

section \<open>The search loops\<close>

lemma distances_nth:
  assumes "map (ManhattanToOrigin h) ps = map Inr ds"
  shows "length ds = length ps" and "j < length ps \<Longrightarrow> ManhattanToOrigin h (ps ! j) = Inr (ds ! j)"
proof -
  show l: "length ds = length ps" using assms by (metis length_map)
  assume "j < length ps"
  then show "ManhattanToOrigin h (ps ! j) = Inr (ds ! j)"
    using assms l by (metis nth_map)
qed

lemma nearest_scan_keep:
  "map (ManhattanToOrigin h) ps = map Inr ds \<Longrightarrow>
   \<forall>d \<in> set ds. \<not> float_less d md \<Longrightarrow>
   nearest_scan h ps (mp, md) = Inr (mp, md)"
proof (induction ps arbitrary: ds)
  case Nil
  then show ?case by simp
next
  case (Cons p ps)
  then obtain d ds' where ds: "ds = d # ds'" by (cases ds) auto
  with Cons.prems have "ManhattanToOrigin h p = Inr d" "map (ManhattanToOrigin h) ps = map Inr ds'"
    "\<not> float_less d md" "\<forall>d \<in> set ds'. \<not> float_less d md" by auto
  then show ?case using Cons.IH [of ds'] by simp
qed

lemma nearest_scan_first_min:
  "map (ManhattanToOrigin h) ps = map Inr ds \<Longrightarrow>
   i < length ps \<Longrightarrow>
   float_less (ds ! i) md \<Longrightarrow>
   \<forall>j < length ds. \<not> float_less (ds ! j) (ds ! i) \<Longrightarrow>
   \<forall>j < i. \<not> float_eq (ds ! j) (ds ! i) \<Longrightarrow>
   nearest_scan h ps (mp, md) = Inr (ps ! i, ds ! i)"
proof (induction ps arbitrary: ds i mp md)
  case Nil
  then show ?case by simp
next
  case (Cons p ps)
  then obtain d ds' where ds: "ds = d # ds'" by (cases ds) auto
  with Cons.prems have m: "ManhattanToOrigin h p = Inr d"
    and ms: "map (ManhattanToOrigin h) ps = map Inr ds'" by auto
  show ?case
  proof (cases i)
    case 0
    from Cons.prems(4) ds 0 have "\<forall>j < length ds'. \<not> float_less (ds' ! j) d"
      by force
    then have "\<forall>e \<in> set ds'. \<not> float_less e d"
      by (auto simp: in_set_conv_nth)
    from nearest_scan_keep [OF ms this] show ?thesis
      using 0 ds m Cons.prems(3) by simp
  next
    case (Suc k)
    have k: "k < length ps" using Cons.prems(2) Suc by simp
    have min': "\<forall>j < length ds'. \<not> float_less (ds' ! j) (ds' ! k)"
      using Cons.prems(4) ds Suc by force
    have first': "\<forall>j < k. \<not> float_eq (ds' ! j) (ds' ! k)"
      using Cons.prems(5) ds Suc by force
    have dk: "float_less (ds' ! k) md" using Cons.prems(3) ds Suc by simp
    show ?thesis
    proof (cases "float_less d md")
      case True
      have "\<not> float_less d (ds' ! k)" using Cons.prems(4) ds Suc by force
      moreover have "\<not> float_eq d (ds' ! k)" using Cons.prems(5) ds Suc by force
      moreover have "\<not> isnan d" "\<not> isnan (ds' ! k)"
        using True dk by (simp_all add: float_less_def)
      ultimately have "float_less (ds' ! k) d"
        using float_trichotomy by blast
      from Cons.IH [OF ms k this min' first'] show ?thesis
        using True m ds Suc by simp
    next
      case False
      from Cons.IH [OF ms k dk min' first'] show ?thesis
        using False m ds Suc by simp
    qed
  qed
qed

lemma nearest_index_loop_keep:
  "map (ManhattanToOrigin h) ps = map Inr ds \<Longrightarrow>
   \<forall>j. i \<le> j \<and> j < length ds \<longrightarrow> \<not> float_less (ds ! j) md \<Longrightarrow>
   nearest_index_loop h ps i (mi, md) = Inr (mi, md)"
proof (induction h ps i "(mi, md)" arbitrary: mi md rule: nearest_index_loop.induct)
  case (1 h points i min_index min_distance)
  show ?case
  proof (cases "i < length points")
    case True
    have m: "ManhattanToOrigin h (points ! i) = Inr (ds ! i)"
      using distances_nth(2) [OF "1.prems"(1) True] .
    have nl: "\<not> float_less (ds ! i) min_distance"
      using "1.prems"(2) True distances_nth(1) [OF "1.prems"(1)] by simp
    have "nearest_index_loop h points (i + 1) (min_index, min_distance) = Inr (min_index, min_distance)"
      using "1.hyps"(2) [OF True m nl "1.prems"(1)] "1.prems"(2) by simp
    then show ?thesis
      using True m nl by (simp add: nearest_index_loop.simps [of h points i])
  next
    case False
    then show ?thesis by (simp add: nearest_index_loop.simps [of h points i])
  qed
qed

lemma nearest_index_loop_first_min:
  "map (ManhattanToOrigin h) ps = map Inr ds \<Longrightarrow>
   k < length ps \<Longrightarrow> i \<le> k \<Longrightarrow>
   float_less (ds ! k) md \<Longrightarrow>
   \<forall>j < length ds. \<not> float_less (ds ! j) (ds ! k) \<Longrightarrow>
   \<forall>j. i \<le> j \<and> j < k \<longrightarrow> \<not> float_eq (ds ! j) (ds ! k) \<Longrightarrow>
   nearest_index_loop h ps i (mi, md) = Inr (k, ds ! k)"
proof (induction h ps i "(mi, md)" arbitrary: mi md rule: nearest_index_loop.induct)
  case (1 h points i min_index min_distance)
  note len = distances_nth(1) [OF "1.prems"(1)]
  have il: "i < length points" using "1.prems"(2,3) by simp
  have m: "ManhattanToOrigin h (points ! i) = Inr (ds ! i)"
    using distances_nth(2) [OF "1.prems"(1) il] .
  show ?case
  proof (cases "i = k")
    case True
    have "\<forall>j. i + 1 \<le> j \<and> j < length ds \<longrightarrow> \<not> float_less (ds ! j) (ds ! k)"
      using "1.prems"(5) by simp
    from nearest_index_loop_keep [OF "1.prems"(1) this]
    show ?thesis
      using True il m "1.prems"(4) by (simp add: nearest_index_loop.simps [of h points k])
  next
    case False
    then have ik: "i + 1 \<le> k" using "1.prems"(3) by simp
    have first': "\<forall>j. i + 1 \<le> j \<and> j < k \<longrightarrow> \<not> float_eq (ds ! j) (ds ! k)"
      using "1.prems"(6) by simp
    show ?thesis
    proof (cases "float_less (ds ! i) min_distance")
      case True
      have "\<not> float_less (ds ! i) (ds ! k)" using "1.prems"(5) il len by simp
      moreover have "\<not> float_eq (ds ! i) (ds ! k)" using "1.prems"(6) False "1.prems"(3) by simp
      moreover have "\<not> isnan (ds ! i)" "\<not> isnan (ds ! k)"
        using True "1.prems"(4) by (simp_all add: float_less_def)
      ultimately have "float_less (ds ! k) (ds ! i)"
        using float_trichotomy by blast
      from "1.hyps"(1) [OF il m True "1.prems"(1,2) ik this "1.prems"(5) first']
      show ?thesis
        using True il m by (simp add: nearest_index_loop.simps [of h points i])
    next
      case nl: False
      from "1.hyps"(2) [OF il m nl "1.prems"(1,2) ik "1.prems"(4,5) first']
      show ?thesis
        using nl il m by (simp add: nearest_index_loop.simps [of h points i])
    qed
  qed
qed

lemma loops_agree:
  "map (ManhattanToOrigin h) ps = map Inr ds \<Longrightarrow> i \<le> length ps \<Longrightarrow>
   \<exists>k d. nearest_index_loop h ps i (mi, md) = Inr (k, d) \<and>
     ((k = mi \<and> d = md \<and> nearest_scan h (drop i ps) (mp, md) = Inr (mp, md)
        \<and> (\<forall>j. i \<le> j \<and> j < length ps \<longrightarrow> \<not> float_less (ds ! j) md))
      \<or> (i \<le> k \<and> k < length ps \<and> d = ds ! k \<and> float_less d md
          \<and> nearest_scan h (drop i ps) (mp, md) = Inr (ps ! k, d)))"
proof (induction h ps i "(mi, md)" arbitrary: mi md mp rule: nearest_index_loop.induct)
  case (1 h points i min_index min_distance)
  show ?case
  proof (cases "i < length points")
    case False
    then show ?thesis
      by (auto simp: nearest_index_loop.simps [of h points i])
  next
    case True
    have m: "ManhattanToOrigin h (points ! i) = Inr (ds ! i)"
      using distances_nth(2) [OF "1.prems"(1) True] .
    have d: "drop i points = points ! i # drop (Suc i) points"
      using True by (simp add: Cons_nth_drop_Suc)
    have il: "i + 1 \<le> length points" using True by simp
    show ?thesis
    proof (cases "float_less (ds ! i) min_distance")
      case less: True
      from "1.hyps"(1) [OF True m less "1.prems"(1) il, of "points ! i"]
      obtain k e where ke: "nearest_index_loop h points (i + 1) (i, ds ! i) = Inr (k, e)"
        and alt: "(k = i \<and> e = ds ! i
                    \<and> nearest_scan h (drop (i + 1) points) (points ! i, ds ! i) = Inr (points ! i, ds ! i))
                  \<or> (i + 1 \<le> k \<and> k < length points \<and> e = ds ! k \<and> float_less e (ds ! i)
                    \<and> nearest_scan h (drop (i + 1) points) (points ! i, ds ! i) = Inr (points ! k, e))"
        by blast
      have l: "nearest_index_loop h points i (min_index, min_distance) = Inr (k, e)"
        using True m less ke by (simp add: nearest_index_loop.simps [of h points i])
      have s: "nearest_scan h (drop i points) (mp, min_distance)
               = nearest_scan h (drop (i + 1) points) (points ! i, ds ! i)"
        using d m less by simp
      from alt have "i \<le> k \<and> k < length points \<and> e = ds ! k \<and> float_less e min_distance
          \<and> nearest_scan h (drop i points) (mp, min_distance) = Inr (points ! k, e)"
        using s True less float_less_trans [of e "ds ! i" min_distance] by auto
      with l show ?thesis by blast
    next
      case nless: False
      from "1.hyps"(2) [OF True m nless "1.prems"(1) il, of mp]
      obtain k e where ke: "nearest_index_loop h points (i + 1) (min_index, min_distance) = Inr (k, e)"
        and alt: "(k = min_index \<and> e = min_distance
                    \<and> nearest_scan h (drop (i + 1) points) (mp, min_distance) = Inr (mp, min_distance)
                    \<and> (\<forall>j. i + 1 \<le> j \<and> j < length points \<longrightarrow> \<not> float_less (ds ! j) min_distance))
                  \<or> (i + 1 \<le> k \<and> k < length points \<and> e = ds ! k \<and> float_less e min_distance
                    \<and> nearest_scan h (drop (i + 1) points) (mp, min_distance) = Inr (points ! k, e))"
        by blast
      have l: "nearest_index_loop h points i (min_index, min_distance) = Inr (k, e)"
        using True m nless ke by (simp add: nearest_index_loop.simps [of h points i])
      have s: "nearest_scan h (drop i points) (mp, min_distance)
               = nearest_scan h (drop (i + 1) points) (mp, min_distance)"
        using d m nless by simp
      have "\<forall>j. i \<le> j \<and> j < length points \<longrightarrow> \<not> float_less (ds ! j) min_distance"
        if "\<forall>j. i + 1 \<le> j \<and> j < length points \<longrightarrow> \<not> float_less (ds ! j) min_distance"
      proof (intro allI impI)
        fix j assume "i \<le> j \<and> j < length points"
        then show "\<not> float_less (ds ! j) min_distance"
          using that nless by (cases "j = i") auto
      qed
      with alt s have "(k = min_index \<and> e = min_distance
            \<and> nearest_scan h (drop i points) (mp, min_distance) = Inr (mp, min_distance)
            \<and> (\<forall>j. i \<le> j \<and> j < length points \<longrightarrow> \<not> float_less (ds ! j) min_distance))
          \<or> (i \<le> k \<and> k < length points \<and> e = ds ! k \<and> float_less e min_distance
            \<and> nearest_scan h (drop i points) (mp, min_distance) = Inr (points ! k, e))"
        by auto
      with l show ?thesis by blast
    qed
  qed
qed

lemma searches_agree:
  assumes "map (ManhattanToOrigin h) ps = map Inr ds"
    and "d0 \<in> set ds" and "float_less d0 FLT_MAX"
  shows "\<exists>k. k < length ps \<and> nearest_index_loop h ps 0 (0, FLT_MAX) = Inr (k, ds ! k)
           \<and> NearestToOrigin_raw h ps = Inr (ps ! k, ds ! k)
           \<and> NearestToOrigin_shared h ps = Inr (ps ! k, ds ! k)
           \<and> float_less (ds ! k) FLT_MAX"
proof -
  from loops_agree [OF assms(1), of 0 0 FLT_MAX nullptr]
  obtain k d where l: "nearest_index_loop h ps 0 (0, FLT_MAX) = Inr (k, d)"
    and alt: "(\<forall>j. j < length ps \<longrightarrow> \<not> float_less (ds ! j) FLT_MAX)
              \<or> (k < length ps \<and> d = ds ! k \<and> float_less d FLT_MAX
                  \<and> nearest_scan h ps (nullptr, FLT_MAX) = Inr (ps ! k, d))"
    by auto
  have len: "length ds = length ps" using assms(1) by (metis length_map)
  from assms(2) obtain j where "j < length ds" "ds ! j = d0" by (auto simp: in_set_conv_nth)
  with assms(3) alt len
  have k: "k < length ps" "d = ds ! k" "nearest_scan h ps (nullptr, FLT_MAX) = Inr (ps ! k, d)"
    "float_less (ds ! k) FLT_MAX"
    by auto
  show ?thesis
    using k l by (auto simp: NearestToOrigin_raw_def NearestToOrigin_shared_def)
qed

section \<open>The counting loops\<close>

lemma PointIsNearOrigin_threshold: "PointIsNearOrigin h p = is_near_origin half h p"
  by (simp add: PointIsNearOrigin_def is_near_origin_def)

lemma count_scan_threshold: "count_scan h ps n = count_near_origin half h ps n"
  by (induction ps arbitrary: n) (simp_all add: PointIsNearOrigin_threshold split: sum.splits)

lemma count_index_loop_scan:
  "count_index_loop h ps i n = count_scan h (drop i ps) n"
proof (induction h ps i n rule: count_index_loop.induct)
  case (1 h points i nearOrigin)
  show ?case
  proof (cases "i < length points")
    case True
    then have d: "drop i points = points ! i # drop (Suc i) points"
      by (simp add: Cons_nth_drop_Suc)
    show ?thesis
      using True "1.IH" d
      by (simp add: count_index_loop.simps [of h points i] split: sum.splits)
  next
    case False
    then show ?thesis by (simp add: count_index_loop.simps [of h points i])
  qed
qed

lemma count_near_origin_filter:
  "map (ManhattanToOrigin h) ps = map Inr ds \<Longrightarrow>
   count_near_origin t h ps n = Inr (n + length (filter (\<lambda>d. float_less d t) ds))"
proof (induction ps arbitrary: ds n)
  case Nil
  then show ?case by simp
next
  case (Cons p ps)
  then obtain d ds' where ds: "ds = d # ds'" by (cases ds) auto
  with Cons.prems have "ManhattanToOrigin h p = Inr d" "map (ManhattanToOrigin h) ps = map Inr ds'"
    by auto
  then show ?case using Cons.IH [of ds'] ds by (simp add: is_near_origin_def)
qed

lemma not_near_below_zero:
  assumes "ManhattanToOrigin h p = Inr d" and "float_le t pos_zero"
  shows "\<not> float_less d t"
proof -
  have "0 \<le> units d" using assms(1) by (rule ManhattanToOrigin_nonneg)
  moreover have "units t \<le> 0" using assms(2) by (simp add: float_le_def units_def pos_zero_def magnitude_def)
  ultimately show ?thesis by (simp add: float_less_def)
qed

section \<open>Generated points\<close>

lemma unit_range_finite: "in_unit_range f \<Longrightarrow> isfinite f"
proof (rule ccontr)
  assume r: "in_unit_range f" and "\<not> isfinite f"
  then have e: "biased_exp f = 255" by (simp add: isfinite_def)
  have "(2::nat) ^ 23 * 2 ^ 254 \<le> (2 ^ 23 + unat (fraction f)) * 2 ^ 254"
    by (rule mult_le_mono1) simp
  then have "(2::nat) ^ 23 * 2 ^ 254 \<le> magnitude f" using e by (simp add: magnitude_def)
  moreover have "magnitude f \<le> 2 ^ 149" using r by (simp add: in_unit_range_def)
  ultimately have "(2::nat) ^ 23 * 2 ^ 254 \<le> 2 ^ 149" by (rule order_trans)
  then show False by simp
qed

lemma unit_range_distance:
  assumes "in_unit_range a" and "in_unit_range b"
  shows "float_less (float_add (std_fabs a) (std_fabs b)) FLT_MAX"
proof -
  let ?n = "magnitude (std_fabs a) + magnitude (std_fabs b)"
  let ?r = "round_to_float32 False ?n"
  have sum: "float_add (std_fabs a) (std_fabs b) = ?r"
    using assms
    by (intro float_add_finite_nonneg) (simp_all add: fabs_class unit_range_finite)
  have "?n \<le> 2 ^ 149 + 2 ^ 149"
    using assms by (simp add: in_unit_range_def magnitude_fabs add_mono)
  then have "?n < 2 ^ 151" by simp
  from round_to_float32_bound [OF this, of False]
  have nn: "\<not> isnan ?r" and mag: "magnitude ?r \<le> 2 ^ 151" by simp_all
  have "units ?r = int (magnitude ?r)" by (simp add: units_def sign_round)
  moreover have "int (magnitude ?r) \<le> 2 ^ 151" using mag by (metis of_nat_le_iff of_nat_numeral of_nat_power)
  moreover have "(2::int) ^ 151 < units FLT_MAX" by (simp add: units_def magnitude_def FLT_MAX_def)
  moreover have "\<not> isnan FLT_MAX" by (simp add: isnan_def FLT_MAX_def)
  ultimately show ?thesis using nn by (simp add: sum float_less_def)
qed

lemma generate_append:
  "generate cs (h, ps) =
     (h @ map (\<lambda>c. Point (fst c) (snd c)) cs, ps @ map Addr [length h ..< length h + length cs])"
proof (induction cs arbitrary: h ps)
  case Nil
  then show ?case by simp
next
  case (Cons c cs)
  have "[length h ..< length h + length (c # cs)]
        = length h # [Suc (length h) ..< Suc (length h) + length cs]"
    by (simp add: upt_rec)
  then show ?case by (simp add: Cons.IH RandomPoint_def)
qed

lemma generated_distances:
  assumes "generate cs ([], []) = (h, ps)"
  shows "length ps = length cs"
    and "\<forall>k < length cs. ps ! k = Addr k \<and> deref h (ps ! k) = Inr (h ! k)"
    and "map (ManhattanToOrigin h) ps
         = map Inr (map (\<lambda>c. float_add (std_fabs (fst c)) (std_fabs (snd c))) cs)"
proof -
  from assms have h: "h = map (\<lambda>c. Point (fst c) (snd c)) cs" and ps: "ps = map Addr [0 ..< length cs]"
    by (simp_all add: generate_append)
  show "length ps = length cs" by (simp add: ps)
  show "\<forall>k < length cs. ps ! k = Addr k \<and> deref h (ps ! k) = Inr (h ! k)"
    by (simp add: ps h)
  show "map (ManhattanToOrigin h) ps
         = map Inr (map (\<lambda>c. float_add (std_fabs (fst c)) (std_fabs (snd c))) cs)"
    by (rule nth_equalityI) (simp_all add: ps h ManhattanToOrigin_def)
qed

section \<open>Conversion and range of the random numbers\<close>






section \<open>Evaluation on literals\<close>

lemmas float_eval =
  float_add_def float_sub_def float_mul_def float_div_def float_of_int_def isnan_def isinf_def
  isfinite_def units_def magnitude_def round_to_float32_def round_ratio_def
  bit_length.simps Let_def std_fabs_def std_abs_def float_neg_def float_less_def float_le_def
  float_eq_def FLT_MAX_def half_def pos_zero_def neg_zero_def infinity_def quiet_NaN_def
  f_0_1_def f_0_2_def f_0_3_def f_0_9_def f_1_8_def f_0_25_def f_1_0_def f_2_0_def

text \<open>
  Known answers of binary32 arithmetic, as IEEE 754 hardware computes them: ties go to the
  even significand (\<open>1 + 2^-24 = 1\<close>, \<open>(1 + 2^-23) + 2^-24 = 1 + 2^-22\<close>,
  \<open>(float)16777217 = 16777216\<close>), the largest subnormal plus the smallest one is the
  smallest normal number, \<open>FLT_MAX + 2^103\<close> overflows to infinity,
  \<open>1 - (1 - 2^-24) = 2^-24\<close>, \<open>0.1f * 0.1f\<close> is \<open>0x3C23D70B\<close>, the subnormal product
  \<open>1e-30f * 1e-10f\<close> is \<open>0x000116C2\<close>, \<open>1.0f / 3.0f\<close> is \<open>0x3EAAAAAB\<close> and
  \<open>(float)2147483647\<close> is \<open>2^31\<close>.
\<close>

lemma known_sums:
  "float_add f_1_0 (Float32 False 103 0) = f_1_0"
  "float_add (Float32 False 127 1) (Float32 False 103 0) = Float32 False 127 2"
  "float_add (Float32 False 0 0x7FFFFF) (Float32 False 0 1) = Float32 False 1 0"
  "float_add FLT_MAX (Float32 False 230 0) = infinity False"
  "float_sub f_1_0 (Float32 False 126 0x7FFFFF) = Float32 False 103 0"
  by (simp_all add: float_eval)

lemma known_products:
  "float_mul f_0_1 f_0_1 = Float32 False 120 0x23D70B"
  "float_mul (Float32 False 27 0x224260) (Float32 False 93 0x5BE6FF) = Float32 False 0 0x116C2"
  "float_div f_1_0 (Float32 False 128 0x400000) = Float32 False 125 0x2AAAAB"
  by (simp_all add: float_eval)

lemma known_conversions:
  "float_of_int 16777217 = Float32 False 151 0"
  "float_of_int 2147483647 = Float32 False 158 0"
  "float_of_int (- 3) = Float32 True 128 0x400000"
  by (simp_all add: float_eval)

lemma literals_nearest:
  "nearest_float32 1 10 f_0_1" "nearest_float32 2 10 f_0_2" "nearest_float32 3 10 f_0_3"
  "nearest_float32 9 10 f_0_9" "nearest_float32 18 10 f_1_8"
  by (simp_all add: nearest_float32_def float_eval)

lemma scenario_sums:
  "float_add (std_fabs f_0_1) (std_fabs f_0_1) = f_0_2"
  "float_add (std_fabs f_0_9) (std_fabs f_0_9) = f_1_8"
  "float_add (std_fabs (float_neg f_0_2)) (std_fabs f_0_1) = f_0_3"
  by (simp_all add: float_eval)

lemma scenario_order:
  "float_less f_0_2 half" "\<not> float_less f_1_8 half" "float_less f_0_3 half"
  "float_less f_0_2 FLT_MAX" "\<not> float_less f_1_8 f_0_2" "\<not> float_less f_0_3 f_0_2"
  by (simp_all add: float_eval)

lemma scenario_generate:
  "generate [(f_0_1, f_0_1), (f_0_9, f_0_9), (float_neg f_0_2, f_0_1)] ([], [])
   = ([Point f_0_1 f_0_1, Point f_0_9 f_0_9, Point (float_neg f_0_2) f_0_1],
      [Addr 0, Addr 1, Addr 2])"
  by (simp add: RandomPoint_def)

lemma scenario_distances:
  "map (ManhattanToOrigin [Point f_0_1 f_0_1, Point f_0_9 f_0_9, Point (float_neg f_0_2) f_0_1])
       [Addr 0, Addr 1, Addr 2]
   = [Inr f_0_2, Inr f_1_8, Inr f_0_3]"
  by (simp add: ManhattanToOrigin_def scenario_sums)

text \<open>Both ends of the interval \<open>[-1, 1]\<close> are reached by the pre-C++11 formula.\<close>

lemma RandomNumber_rand_ends:
  "RandomNumber_rand 32767 0 = float_neg f_1_0" "RandomNumber_rand 32767 32767 = f_1_0"
  by (simp_all add: RandomNumber_rand_def float_eval)

section \<open>The claims\<close>

subsection \<open>The empty collection raises no error\<close>

text \<open>
  C1, amended. No program has an \<open>EmptyInputError\<close>. On the empty collection the
  \<open>shared_ptr\<close> search returns normally and the point reference of its result is null;
  the raw-pointer search reads \<open>points[0]\<close> of the empty vector, which is undefined
  behaviour.
\<close>

theorem NearestToOrigin_empty_returns:
  "map_sum id fst (NearestToOrigin_shared h []) = Inr nullptr
   \<and> NearestToOrigin_raw h [] = Inl OutOfRange"
  by (simp add: NearestToOrigin_shared_def NearestToOrigin_raw_def nearest_index_loop.simps)

text \<open>
  C1 as stated fails: on the empty collection the \<open>shared_ptr\<close> search does not end in
  an error, it returns a result.
\<close>

theorem NearestToOrigin_empty_no_error:
  "\<not> isl (NearestToOrigin_shared [] [])"
  by (simp add: NearestToOrigin_shared_def)

subsection \<open>Tie-break: the first minimum wins\<close>

text \<open>
  C2, amended. Let the points of the collection be readable with distances \<open>ds\<close>, and
  let index \<open>i\<close> be the first one that achieves the minimum distance: no distance is
  less than \<open>ds ! i\<close> and no earlier distance equals it. If that minimum is less than
  \<open>FLT_MAX\<close>, the \<open>shared_ptr\<close> search returns the point at index \<open>i\<close> with its
  distance, and so does the raw-pointer search on a collection of fewer than \<open>2^32\<close>
  points, whose loop ends with \<open>min_index = i\<close>. The bound is that of the
  \<open>unsigned int\<close> counter of the raw-pointer loop: from \<open>2^32\<close> points on the counter
  wraps before it reaches the size, and nothing is stated. Points whose distance is NaN
  are never selected.
\<close>

theorem NearestToOrigin_first_minimum:
  assumes "map (ManhattanToOrigin h) ps = map Inr ds"
    and "i < length ps"
    and "float_less (ds ! i) FLT_MAX"
    and "\<forall>j < length ds. \<not> float_less (ds ! j) (ds ! i)"
    and "\<forall>j < i. \<not> float_eq (ds ! j) (ds ! i)"
  shows "NearestToOrigin_shared h ps = Inr (ps ! i, ds ! i)
         \<and> (length ps < 2 ^ 32 \<longrightarrow>
              nearest_index_loop h ps 0 (0, FLT_MAX) = Inr (i, ds ! i)
              \<and> NearestToOrigin_raw h ps = Inr (ps ! i, ds ! i))"
proof -
  have s: "NearestToOrigin_shared h ps = Inr (ps ! i, ds ! i)"
    unfolding NearestToOrigin_shared_def
    using assms by (rule nearest_scan_first_min)
  have "\<forall>j. 0 \<le> j \<and> j < i \<longrightarrow> \<not> float_eq (ds ! j) (ds ! i)"
    using assms(5) by simp
  from nearest_index_loop_first_min [OF assms(1,2) _ assms(3,4) this]
  have l: "nearest_index_loop h ps 0 (0, FLT_MAX) = Inr (i, ds ! i)" by simp
  then have "NearestToOrigin_raw h ps = Inr (ps ! i, ds ! i)"
    using assms(2) by (simp add: NearestToOrigin_raw_def)
  with s l show ?thesis by simp
qed

text \<open>C2, witness: the instance \<open>[(1,0), (0,1)]\<close>. Both distances are \<open>1.0f\<close> and the first
  point is returned.\<close>

theorem NearestToOrigin_first_minimum_witness:
  "length [Addr 0, Addr 1] < (2::nat) ^ 32
   \<and> NearestToOrigin_shared [Point f_1_0 pos_zero, Point pos_zero f_1_0] [Addr 0, Addr 1]
     = Inr (Addr 0, f_1_0)
   \<and> nearest_index_loop [Point f_1_0 pos_zero, Point pos_zero f_1_0] [Addr 0, Addr 1] 0 (0, FLT_MAX)
     = Inr (0, f_1_0)
   \<and> NearestToOrigin_raw [Point f_1_0 pos_zero, Point pos_zero f_1_0] [Addr 0, Addr 1]
     = Inr (Addr 0, f_1_0)"
proof -
  let ?h = "[Point f_1_0 pos_zero, Point pos_zero f_1_0]"
  have 1: "map (ManhattanToOrigin ?h) [Addr 0, Addr 1] = map Inr [f_1_0, f_1_0]"
    by (simp add: ManhattanToOrigin_def float_eval)
  have 2: "(0::nat) < length [Addr 0, Addr 1]" by simp
  have 3: "float_less ([f_1_0, f_1_0] ! 0) FLT_MAX" by (simp add: float_eval)
  have 4: "\<forall>j < length [f_1_0, f_1_0]. \<not> float_less ([f_1_0, f_1_0] ! j) ([f_1_0, f_1_0] ! 0)"
    by (simp add: float_less_def less_Suc_eq)
  have 5: "\<forall>j < (0::nat). \<not> float_eq ([f_1_0, f_1_0] ! j) ([f_1_0, f_1_0] ! 0)" by simp
  have 6: "length [Addr 0, Addr 1] < (2::nat) ^ 32" by simp
  from NearestToOrigin_first_minimum [OF 1 2 3 4 5] 6 show ?thesis by simp
qed

text \<open>
  C2 as stated fails when the minimum is not less than \<open>FLT_MAX\<close>: the two points
  \<open>(FLT_MAX, 0)\<close> and \<open>(0, FLT_MAX)\<close> share the minimum distance \<open>FLT_MAX\<close>, and
  the \<open>shared_ptr\<close> search returns the null pointer, not the first point.
\<close>

theorem NearestToOrigin_tie_at_FLT_MAX:
  "ManhattanToOrigin [Point FLT_MAX pos_zero, Point pos_zero FLT_MAX] (Addr 0) = Inr FLT_MAX
   \<and> ManhattanToOrigin [Point FLT_MAX pos_zero, Point pos_zero FLT_MAX] (Addr 1) = Inr FLT_MAX
   \<and> NearestToOrigin_shared [Point FLT_MAX pos_zero, Point pos_zero FLT_MAX] [Addr 0, Addr 1]
       = Inr (nullptr, FLT_MAX)"
proof -
  let ?h = "[Point FLT_MAX pos_zero, Point pos_zero FLT_MAX]"
  have a: "float_add (std_fabs FLT_MAX) (std_fabs pos_zero) = FLT_MAX"
    by (simp add: float_eval)
  have b: "float_add (std_fabs pos_zero) (std_fabs FLT_MAX) = FLT_MAX"
    by (simp add: float_eval)
  have 0: "ManhattanToOrigin ?h (Addr 0) = Inr FLT_MAX"
    by (simp add: ManhattanToOrigin_def a)
  have 1: "ManhattanToOrigin ?h (Addr 1) = Inr FLT_MAX"
    by (simp add: ManhattanToOrigin_def b)
  show ?thesis
    using 0 1 by (simp add: NearestToOrigin_shared_def float_less_irrefl)
qed

subsection \<open>Manhattan distance\<close>

text \<open>
  C3. For a point \<open>(x, y)\<close> with finite coordinates of either sign,
  \<open>ManhattanToOrigin\<close> returns the binary32 sum \<open>d\<close> of the absolute values: the
  exact \<open>|x| + |y|\<close>, counted in units of \<open>2^-149\<close>, rounded to binary32. It is
  never a NaN nor negative, and unless the sum overflows to infinity it differs from the
  exact \<open>|x| + |y|\<close> by at most half a unit in the last place. The \<open>std::abs\<close>
  programs return the same value as the \<open>std::fabs\<close> ones. The result is the same
  after negating either coordinate or both, and it depends on nothing but the point
  read: the function returns a value and has no other effect.
\<close>

theorem ManhattanToOrigin_abs_sum:
  assumes "deref h p = Inr (Point x y)" and "isfinite x" and "isfinite y"
  shows "\<exists>d. ManhattanToOrigin h p = Inr d
    \<and> d = round_to_float32 False (nat (\<bar>units x\<bar> + \<bar>units y\<bar>))
    \<and> \<not> isnan d \<and> \<not> sign_bit d
    \<and> (isfinite d \<longrightarrow>
          2 * \<bar>units d - (\<bar>units x\<bar> + \<bar>units y\<bar>)\<bar>
            \<le> 2 ^ (bit_length (nat (\<bar>units x\<bar> + \<bar>units y\<bar>)) - 24))
    \<and> ManhattanToOrigin_abs h p = Inr d
    \<and> (deref h1 p1 = Inr (Point (float_neg x) y) \<longrightarrow> ManhattanToOrigin h1 p1 = Inr d)
    \<and> (deref h2 p2 = Inr (Point x (float_neg y)) \<longrightarrow> ManhattanToOrigin h2 p2 = Inr d)
    \<and> (deref h3 p3 = Inr (Point (float_neg x) (float_neg y))
         \<longrightarrow> ManhattanToOrigin h3 p3 = Inr d)
    \<and> (deref h4 p4 = deref h p \<longrightarrow> ManhattanToOrigin h4 p4 = Inr d)"
proof -
  define n where "n = nat (\<bar>units x\<bar> + \<bar>units y\<bar>)"
  define d where "d = round_to_float32 False n"
  have "float_add (std_fabs x) (std_fabs y)
        = round_to_float32 False (magnitude (std_fabs x) + magnitude (std_fabs y))"
    using assms(2,3) by (intro float_add_finite_nonneg) (simp_all add: fabs_class)
  moreover have n: "n = magnitude (std_fabs x) + magnitude (std_fabs y)"
    by (simp add: n_def magnitude_fabs units_def)
  ultimately have sum: "float_add (std_fabs x) (std_fabs y) = d" by (simp add: d_def)
  have m: "ManhattanToOrigin h p = Inr d"
    using assms(1) by (simp add: ManhattanToOrigin_def sum)
  have cls: "\<not> isnan d" "\<not> sign_bit d"
    by (simp_all add: d_def round_to_float32_facts)
  have err: "2 * \<bar>units d - (\<bar>units x\<bar> + \<bar>units y\<bar>)\<bar> \<le> 2 ^ (bit_length n - 24)"
    if "isfinite d"
  proof -
    have "units d = int (magnitude d)" using cls(2) by (simp add: units_def)
    moreover have "int n = \<bar>units x\<bar> + \<bar>units y\<bar>" by (simp add: n_def)
    ultimately show ?thesis
      using round_to_float32_error [of False n] that by (simp add: d_def)
  qed
  have sym: "ManhattanToOrigin h' p' = Inr d"
    if "deref h' p' = Inr (Point x' y')" and "std_fabs x' = std_fabs x" and "std_fabs y' = std_fabs y"
    for h' p' x' y'
    using that by (simp add: ManhattanToOrigin_def sum)
  have pure: "ManhattanToOrigin h4 p4 = Inr d" if "deref h4 p4 = deref h p"
    using that assms(1) by (simp add: ManhattanToOrigin_def sum)
  show ?thesis
    using m cls err pure sym [of h1 p1 "float_neg x" y] sym [of h2 p2 x "float_neg y"]
      sym [of h3 p3 "float_neg x" "float_neg y"]
    by (auto simp: ManhattanToOrigin_abs_eq std_fabs_neg simp flip: n_def d_def)
qed

text \<open>C3, witness: the point \<open>(-0.2, 0.1)\<close> and its mirror image \<open>(0.2, 0.1)\<close>, both
  at the distance \<open>0.3f\<close>, a quarter of a unit in the last place above the exact sum.\<close>

theorem ManhattanToOrigin_abs_sum_witness:
  "deref [Point (float_neg f_0_2) f_0_1] (Addr 0) = Inr (Point (float_neg f_0_2) f_0_1)
   \<and> isfinite (float_neg f_0_2) \<and> isfinite f_0_1
   \<and> \<bar>units (float_neg f_0_2)\<bar> + \<bar>units f_0_1\<bar> = 3 * 13421773 * 2 ^ 122
   \<and> ManhattanToOrigin [Point (float_neg f_0_2) f_0_1] (Addr 0) = Inr f_0_3
   \<and> isfinite f_0_3 \<and> units f_0_3 = 3 * 13421773 * 2 ^ 122 + 2 ^ 122
   \<and> ManhattanToOrigin [Point f_0_2 f_0_1] (Addr 0) = Inr f_0_3"
proof -
  have 1: "deref [Point (float_neg f_0_2) f_0_1] (Addr 0) = Inr (Point (float_neg f_0_2) f_0_1)"
    by simp
  have 2: "isfinite (float_neg f_0_2)" and 3: "isfinite f_0_1"
    by (simp_all add: float_eval)
  have 4: "deref [Point f_0_2 f_0_1] (Addr 0) = Inr (Point (float_neg (float_neg f_0_2)) f_0_1)"
    by (simp add: float_neg_def f_0_2_def)
  have 5: "\<bar>units (float_neg f_0_2)\<bar> + \<bar>units f_0_1\<bar> = 3 * 13421773 * 2 ^ 122"
    by (simp add: float_eval)
  have 6: "round_to_float32 False (nat (3 * 13421773 * 2 ^ 122)) = f_0_3"
    by (simp add: float_eval)
  have 7: "isfinite f_0_3" "units f_0_3 = 3 * 13421773 * 2 ^ 122 + 2 ^ 122"
    by (simp_all add: float_eval)
  from ManhattanToOrigin_abs_sum [OF 1 2 3, of "[Point f_0_2 f_0_1]" "Addr 0"]
  obtain d where "ManhattanToOrigin [Point (float_neg f_0_2) f_0_1] (Addr 0) = Inr d"
    and "d = round_to_float32 False (nat (\<bar>units (float_neg f_0_2)\<bar> + \<bar>units f_0_1\<bar>))"
    and "deref [Point f_0_2 f_0_1] (Addr 0) = Inr (Point (float_neg (float_neg f_0_2)) f_0_1)
         \<longrightarrow> ManhattanToOrigin [Point f_0_2 f_0_1] (Addr 0) = Inr d"
    by blast
  then show ?thesis using 1 2 3 4 5 6 7 by simp
qed

subsection \<open>Classifier\<close>

text \<open>
  C4. \<open>PointIsNearOrigin\<close> answers whether the Manhattan distance is strictly less
  than \<open>0.5f\<close>, that is: the distance is not a NaN and is below \<open>2^148\<close> units of
  \<open>2^-149\<close>. A distance equal to \<open>0.5f\<close> is not near. With another threshold in
  the place of the literal the test is the same strict comparison.
\<close>

theorem PointIsNearOrigin_strict:
  assumes "ManhattanToOrigin h p = Inr d"
  shows "PointIsNearOrigin h p = Inr (float_less d half)
    \<and> (float_less d half \<longleftrightarrow> \<not> isnan d \<and> units d < 2 ^ 148)
    \<and> (float_eq d half \<longrightarrow> PointIsNearOrigin h p = Inr False)
    \<and> is_near_origin t h p = Inr (float_less d t)
    \<and> (float_eq d t \<longrightarrow> is_near_origin t h p = Inr False)"
  using assms
  by (auto simp: PointIsNearOrigin_def is_near_origin_def float_less_def float_eq_def units_half
      not_nan_half)

text \<open>C4, witness: the point \<open>(0.25, -0.25)\<close> lies at the distance \<open>0.5f\<close>
  exactly and is not near.\<close>

theorem PointIsNearOrigin_strict_witness:
  "ManhattanToOrigin [Point f_0_25 (float_neg f_0_25)] (Addr 0) = Inr half
   \<and> PointIsNearOrigin [Point f_0_25 (float_neg f_0_25)] (Addr 0) = Inr False"
proof -
  have 1: "ManhattanToOrigin [Point f_0_25 (float_neg f_0_25)] (Addr 0) = Inr half"
    by (simp add: ManhattanToOrigin_def float_eval)
  have 2: "float_eq half half" by (simp add: float_eval)
  from PointIsNearOrigin_strict [OF 1] 1 2 show ?thesis by blast
qed

subsection \<open>The three-point scenario\<close>

text \<open>
  C5. The collection \<open>[(0.1,0.1), (0.9,0.9), (-0.2,0.1)]\<close>, with the coordinates as
  \<open>float\<close> literals: the three distances are the binary32 values \<open>0.2f\<close>,
  \<open>1.8f\<close> and \<open>0.3f\<close>, each the binary32 value nearest to the decimal; two points
  are near the origin at the threshold \<open>0.5f\<close>; both searches return the first point,
  \<open>(0.1, 0.1)\<close>, with the distance \<open>0.2f\<close>.
\<close>

theorem end_to_end_scenario:
  "generate [(f_0_1, f_0_1), (f_0_9, f_0_9), (float_neg f_0_2, f_0_1)] ([], [])
     = ([Point f_0_1 f_0_1, Point f_0_9 f_0_9, Point (float_neg f_0_2) f_0_1],
        [Addr 0, Addr 1, Addr 2])
   \<and> nearest_float32 1 10 f_0_1 \<and> nearest_float32 9 10 f_0_9 \<and> nearest_float32 2 10 f_0_2
   \<and> map (ManhattanToOrigin [Point f_0_1 f_0_1, Point f_0_9 f_0_9, Point (float_neg f_0_2) f_0_1])
          [Addr 0, Addr 1, Addr 2]
       = [Inr f_0_2, Inr f_1_8, Inr f_0_3]
   \<and> nearest_float32 18 10 f_1_8 \<and> nearest_float32 3 10 f_0_3
   \<and> count_scan [Point f_0_1 f_0_1, Point f_0_9 f_0_9, Point (float_neg f_0_2) f_0_1]
          [Addr 0, Addr 1, Addr 2] 0 = Inr 2
   \<and> count_index_loop [Point f_0_1 f_0_1, Point f_0_9 f_0_9, Point (float_neg f_0_2) f_0_1]
          [Addr 0, Addr 1, Addr 2] 0 0 = Inr 2
   \<and> NearestToOrigin_shared [Point f_0_1 f_0_1, Point f_0_9 f_0_9, Point (float_neg f_0_2) f_0_1]
          [Addr 0, Addr 1, Addr 2] = Inr (Addr 0, f_0_2)
   \<and> NearestToOrigin_raw [Point f_0_1 f_0_1, Point f_0_9 f_0_9, Point (float_neg f_0_2) f_0_1]
          [Addr 0, Addr 1, Addr 2] = Inr (Addr 0, f_0_2)
   \<and> deref [Point f_0_1 f_0_1, Point f_0_9 f_0_9, Point (float_neg f_0_2) f_0_1] (Addr 0)
       = Inr (Point f_0_1 f_0_1)"
proof -
  let ?h = "[Point f_0_1 f_0_1, Point f_0_9 f_0_9, Point (float_neg f_0_2) f_0_1]"
  let ?ps = "[Addr 0, Addr 1, Addr 2]"
  have m: "ManhattanToOrigin ?h (Addr 0) = Inr f_0_2"
      "ManhattanToOrigin ?h (Addr (Suc 0)) = Inr f_1_8"
      "ManhattanToOrigin ?h (Addr 2) = Inr f_0_3"
    using scenario_distances by simp_all
  have c: "count_scan ?h ?ps 0 = Inr 2"
    using m by (simp add: PointIsNearOrigin_def scenario_order)
  have s: "NearestToOrigin_shared ?h ?ps = Inr (Addr 0, f_0_2)"
    using m by (simp add: NearestToOrigin_shared_def scenario_order)
  have dist: "map (ManhattanToOrigin ?h) ?ps = map Inr [f_0_2, f_1_8, f_0_3]"
    using scenario_distances by simp
  have "f_0_2 \<in> set [f_0_2, f_1_8, f_0_3]" by simp
  from searches_agree [OF dist this scenario_order(4)] s
  have r: "NearestToOrigin_raw ?h ?ps = Inr (Addr 0, f_0_2)"
    by auto
  show ?thesis
    using scenario_generate literals_nearest scenario_distances c s r
    by (simp add: count_index_loop_scan)
qed

subsection \<open>Singleton collections\<close>

text \<open>
  C6, amended. For a singleton collection \<open>[p]\<close> whose point is readable and has a
  Manhattan distance \<open>d\<close> less than \<open>FLT_MAX\<close>, both searches return \<open>(p, d)\<close>.
\<close>

theorem NearestToOrigin_singleton:
  assumes "ManhattanToOrigin h p = Inr d" and "float_less d FLT_MAX"
  shows "NearestToOrigin_shared h [p] = Inr (p, d) \<and> NearestToOrigin_raw h [p] = Inr (p, d)"
  using assms
  by (simp add: NearestToOrigin_shared_def NearestToOrigin_raw_def
      nearest_index_loop.simps [of h "[p]"])

text \<open>C6, witness: the point \<open>(0.1, 0.1)\<close> at the distance \<open>0.2f\<close>.\<close>

theorem NearestToOrigin_singleton_witness:
  "ManhattanToOrigin [Point f_0_1 f_0_1] (Addr 0) = Inr f_0_2 \<and> float_less f_0_2 FLT_MAX
   \<and> NearestToOrigin_shared [Point f_0_1 f_0_1] [Addr 0] = Inr (Addr 0, f_0_2)
   \<and> NearestToOrigin_raw [Point f_0_1 f_0_1] [Addr 0] = Inr (Addr 0, f_0_2)"
proof -
  have 1: "ManhattanToOrigin [Point f_0_1 f_0_1] (Addr 0) = Inr f_0_2"
    by (simp add: ManhattanToOrigin_def float_eval)
  have 2: "float_less f_0_2 FLT_MAX" by (simp add: float_eval)
  from NearestToOrigin_singleton [OF 1 2] 1 2 show ?thesis by simp
qed

text \<open>
  C6 as stated fails for the point \<open>(FLT_MAX, FLT_MAX)\<close>, whose coordinates are finite:
  its distance overflows to \<open>+inf\<close>, the \<open>shared_ptr\<close> search returns the null
  pointer with \<open>FLT_MAX\<close>, and the raw-pointer search returns the point with
  \<open>FLT_MAX\<close>, which is not its distance.
\<close>

theorem NearestToOrigin_singleton_overflow:
  "ManhattanToOrigin [Point FLT_MAX FLT_MAX] (Addr 0) = Inr (infinity False)
   \<and> NearestToOrigin_shared [Point FLT_MAX FLT_MAX] [Addr 0] = Inr (nullptr, FLT_MAX)
   \<and> NearestToOrigin_raw [Point FLT_MAX FLT_MAX] [Addr 0] = Inr (Addr 0, FLT_MAX)
   \<and> infinity False \<noteq> FLT_MAX"
proof -
  have a: "float_add (std_fabs FLT_MAX) (std_fabs FLT_MAX) = infinity False"
    by (simp add: float_eval)
  have 0: "ManhattanToOrigin [Point FLT_MAX FLT_MAX] (Addr 0) = Inr (infinity False)"
    by (simp add: ManhattanToOrigin_def a)
  have n: "\<not> float_less (infinity False) FLT_MAX"
    by (simp add: float_eval)
  show ?thesis
    by (simp add: 0 n NearestToOrigin_shared_def NearestToOrigin_raw_def
        nearest_index_loop.simps [of _ "[Addr 0]"]) (simp add: infinity_def FLT_MAX_def)
qed

subsection \<open>Counting\<close>

text \<open>
  C7. For every collection of readable points and every threshold \<open>t\<close>, the count of
  near points is at most the size of the collection, and it is 0 when \<open>t <= 0\<close>. At
  the threshold \<open>0.5f\<close> and on a collection of fewer than \<open>2^31\<close> points it is the
  count that both counting loops of \<open>main\<close> compute. The bound is that of the counters
  of the code, the \<open>int nearOrigin\<close> of both loops and the \<open>unsigned int i\<close> of the
  raw-pointer loop: below it neither overflows, from it on nothing is stated about the
  loops of \<open>main\<close>.
\<close>

theorem count_near_origin_bounds:
  assumes "map (ManhattanToOrigin h) ps = map Inr ds"
  shows "\<exists>n. count_near_origin t h ps 0 = Inr n \<and> n \<le> length ps
    \<and> (float_le t pos_zero \<longrightarrow> n = 0)
    \<and> (t = half \<and> length ps < 2 ^ 31 \<longrightarrow>
         count_scan h ps 0 = Inr n \<and> count_index_loop h ps 0 0 = Inr n \<and> n < 2 ^ 31)"
proof -
  let ?n = "length (filter (\<lambda>d. float_less d t) ds)"
  have c: "count_near_origin t h ps 0 = Inr ?n"
    using count_near_origin_filter [OF assms, of t 0] by simp
  have len: "length ds = length ps" using assms by (metis length_map)
  have b: "?n \<le> length ps" using len length_filter_le [of _ ds] by metis
  have z: "?n = 0" if t: "float_le t pos_zero"
  proof -
    have "\<not> float_less d t" if "d \<in> set ds" for d
    proof -
      from that obtain j where j: "j < length ds" "ds ! j = d" by (auto simp: in_set_conv_nth)
      then have "ManhattanToOrigin h (ps ! j) = Inr d"
        using assms len by (metis nth_map)
      then show ?thesis using t by (rule not_near_below_zero)
    qed
    then show ?thesis by (simp add: filter_empty_conv)
  qed
  have "count_scan h ps 0 = Inr ?n \<and> count_index_loop h ps 0 0 = Inr ?n \<and> ?n < 2 ^ 31"
    if "t = half \<and> length ps < 2 ^ 31"
  proof -
    from that have "length ps < 2 ^ 31" by blast
    with b have "?n < 2 ^ 31" by (rule le_less_trans)
    then show ?thesis
      using c that by (simp add: count_index_loop_scan count_scan_threshold)
  qed
  with c b z show ?thesis by blast
qed

text \<open>C7, witness: the three-point collection, at the threshold \<open>-0.0f\<close>, where nothing
  is near, and at the threshold \<open>0.5f\<close>, where both loops of \<open>main\<close> count 2.\<close>

theorem count_near_origin_bounds_witness:
  "map (ManhattanToOrigin [Point f_0_1 f_0_1, Point f_0_9 f_0_9, Point (float_neg f_0_2) f_0_1])
       [Addr 0, Addr 1, Addr 2] = map Inr [f_0_2, f_1_8, f_0_3]
   \<and> float_le neg_zero pos_zero
   \<and> count_near_origin neg_zero
        [Point f_0_1 f_0_1, Point f_0_9 f_0_9, Point (float_neg f_0_2) f_0_1]
        [Addr 0, Addr 1, Addr 2] 0 = Inr 0
   \<and> length [Addr 0, Addr 1, Addr 2] < (2::nat) ^ 31
   \<and> count_near_origin half
        [Point f_0_1 f_0_1, Point f_0_9 f_0_9, Point (float_neg f_0_2) f_0_1]
        [Addr 0, Addr 1, Addr 2] 0 = Inr 2
   \<and> count_scan [Point f_0_1 f_0_1, Point f_0_9 f_0_9, Point (float_neg f_0_2) f_0_1]
        [Addr 0, Addr 1, Addr 2] 0 = Inr 2
   \<and> count_index_loop [Point f_0_1 f_0_1, Point f_0_9 f_0_9, Point (float_neg f_0_2) f_0_1]
        [Addr 0, Addr 1, Addr 2] 0 0 = Inr 2"
proof -
  let ?h = "[Point f_0_1 f_0_1, Point f_0_9 f_0_9, Point (float_neg f_0_2) f_0_1]"
  let ?ps = "[Addr 0, Addr 1, Addr 2]"
  have 1: "map (ManhattanToOrigin ?h) ?ps = map Inr [f_0_2, f_1_8, f_0_3]"
    using scenario_distances by simp
  have 2: "float_le neg_zero pos_zero" by (simp add: float_eval)
  have 3: "length ?ps < (2::nat) ^ 31" by simp
  have 4: "count_near_origin half ?h ?ps 0 = Inr 2"
    using count_near_origin_filter [OF 1, of half 0] by (simp add: scenario_order)
  from count_near_origin_bounds [OF 1, of neg_zero]
  have z: "count_near_origin neg_zero ?h ?ps 0 = Inr 0" using 2 by auto
  from count_near_origin_bounds [OF 1, of half]
  have "count_scan ?h ?ps 0 = Inr 2 \<and> count_index_loop ?h ?ps 0 0 = Inr 2"
    using 3 4 by auto
  with 1 2 3 4 z show ?thesis by simp
qed

subsection \<open>Range of the random numbers\<close>



subsection \<open>The sentinel of the \<open>shared_ptr\<close> search\<close>

text \<open>
  C9. On the empty vector the \<open>shared_ptr\<close> search returns the null pointer paired with
  \<open>FLT_MAX\<close>, whatever the store holds, also when the store holds no point at all: no
  error value arises and no element is read.
\<close>

theorem NearestToOrigin_shared_empty:
  "NearestToOrigin_shared h [] = Inr (nullptr, FLT_MAX)
   \<and> NearestToOrigin_shared [] [] = Inr (nullptr, Float32 False 254 0x7FFFFF)"
  by (simp add: NearestToOrigin_shared_def FLT_MAX_def)

subsection \<open>The raw-pointer and the \<open>shared_ptr\<close> programs agree\<close>

text \<open>
  C10. For every sequence of 100 generated coordinate pairs of which at least one lies at
  a Manhattan distance below \<open>FLT_MAX\<close> (every pair in the range \<open>[-1, +1]\<close> of
  \<open>RandomNumber\<close> does, by \<open>unit_range_distance\<close>), both programs build the same
  collection, count the same number of near points, find the same minimum distance and
  select the point at the same index \<open>k\<close> of the collection, the final \<open>min_index\<close>
  of the raw-pointer loop; both programs print the same report and neither runs into
  undefined behaviour.
\<close>

theorem programs_agree:
  assumes "\<exists>i < 100. float_less (float_add (std_fabs (fst (draws i))) (std_fabs (snd (draws i))))
                            FLT_MAX"
  shows "\<exists>h ps k d n. generate (map draws [0..<100]) ([], []) = (h, ps) \<and> length ps = 100
      \<and> k < 100 \<and> ps ! k = Addr k
      \<and> nearest_index_loop h ps 0 (0, FLT_MAX) = Inr (k, d)
      \<and> NearestToOrigin_raw h ps = Inr (ps ! k, d)
      \<and> NearestToOrigin_shared h ps = Inr (ps ! k, d)
      \<and> ManhattanToOrigin h (ps ! k) = Inr d
      \<and> count_index_loop h ps 0 0 = Inr n \<and> count_scan h ps 0 = Inr n
      \<and> main_raw draws = Inr (n, 100, h ! k, d) \<and> main_shared draws = Inr (n, 100, h ! k, d)"
proof -
  let ?cs = "map draws [0..<100]"
  let ?ds = "map (\<lambda>c. float_add (std_fabs (fst c)) (std_fabs (snd c))) ?cs"
  obtain h ps where g: "generate ?cs ([], []) = (h, ps)" by (cases "generate ?cs ([], [])")
  have len: "length ps = 100" using generated_distances(1) [OF g] by simp
  have addr: "\<forall>k < 100. ps ! k = Addr k \<and> deref h (ps ! k) = Inr (h ! k)"
    using generated_distances(2) [OF g] by (simp only: length_map length_upt diff_zero)
  have dist: "map (ManhattanToOrigin h) ps = map Inr ?ds"
    using generated_distances(3) [OF g] .
  from assms obtain i where i: "i < 100"
    and below: "float_less (float_add (std_fabs (fst (draws i))) (std_fabs (snd (draws i)))) FLT_MAX"
    by blast
  have d0: "?ds ! i \<in> set ?ds" using i by (intro nth_mem) simp
  have "?ds ! i = float_add (std_fabs (fst (draws i))) (std_fabs (snd (draws i)))"
    using i by simp
  then have "float_less (?ds ! i) FLT_MAX"
    using below by simp
  from searches_agree [OF dist d0 this]
  obtain k where k: "k < length ps" "nearest_index_loop h ps 0 (0, FLT_MAX) = Inr (k, ?ds ! k)"
    "NearestToOrigin_raw h ps = Inr (ps ! k, ?ds ! k)"
    "NearestToOrigin_shared h ps = Inr (ps ! k, ?ds ! k)"
    by blast
  have mk: "ManhattanToOrigin h (ps ! k) = Inr (?ds ! k)"
    using distances_nth(2) [OF dist k(1)] .
  let ?n = "length (filter (\<lambda>d. float_less d half) ?ds)"
  have c: "count_scan h ps 0 = Inr ?n"
    using count_near_origin_filter [OF dist, of half 0] by (simp add: count_scan_threshold)
  then have ci: "count_index_loop h ps 0 0 = Inr ?n" by (simp add: count_index_loop_scan)
  have k100: "k < 100" using k(1) len by simp
  then have pk: "ps ! k = Addr k" "deref h (ps ! k) = Inr (h ! k)" using addr by blast+
  have mr: "main_raw draws = Inr (?n, 100, h ! k, ?ds ! k)"
    using g ci k(3) pk(2) len by (simp add: main_raw_def report_raw_def)
  have ms: "main_shared draws = Inr (?n, 100, h ! k, ?ds ! k)"
    using g c k(4) pk(2) len by (simp add: main_shared_def report_shared_def)
  show ?thesis
    using g len k100 pk(1) k(2,3,4) mk ci c mr ms by blast
qed

text \<open>C10, witness: every point is \<open>(0.1, -0.9)\<close>.\<close>

theorem programs_agree_witness:
  "in_unit_range f_0_1 \<and> in_unit_range (float_neg f_0_9)
   \<and> float_less (float_add (std_fabs f_0_1) (std_fabs (float_neg f_0_9))) FLT_MAX
   \<and> main_raw (\<lambda>i. (f_0_1, float_neg f_0_9)) = main_shared (\<lambda>i. (f_0_1, float_neg f_0_9))
   \<and> \<not> isl (main_raw (\<lambda>i. (f_0_1, float_neg f_0_9)))"
proof -
  have r: "in_unit_range f_0_1" "in_unit_range (float_neg f_0_9)"
    by (simp_all add: in_unit_range_def float_eval)
  then have b: "float_less (float_add (std_fabs f_0_1) (std_fabs (float_neg f_0_9))) FLT_MAX"
    by (rule unit_range_distance)
  then have "float_less (float_add (std_fabs (fst ((\<lambda>i::nat. (f_0_1, float_neg f_0_9)) 0)))
                 (std_fabs (snd ((\<lambda>i::nat. (f_0_1, float_neg f_0_9)) 0)))) FLT_MAX"
    by simp
  then have h: "\<exists>i < 100. float_less
        (float_add (std_fabs (fst ((\<lambda>i::nat. (f_0_1, float_neg f_0_9)) i)))
                   (std_fabs (snd ((\<lambda>i::nat. (f_0_1, float_neg f_0_9)) i)))) FLT_MAX"
    by (intro exI [of _ 0]) simp
  from programs_agree [OF h] r b show ?thesis by auto
qed

end
